theory Spec2Isabelle
  imports Complex_Main
begin

section \<open>JavaScript numbers\<close>

text \<open>
  The collage engine \<open>mergeImages\<close> (the module utils/imageUtils) computes with JavaScript
  numbers.  A finite double is modelled by the real number it stands for; the three special
  values are kept, because a division by zero does not fail in JavaScript but yields an
  infinity or NaN.  The two zeros are identified: every divisor of \<open>mergeImages\<close> that can be
  zero is a sum or a maximum of non-negative integers, or the result of an exact
  cancellation, hence the positive zero.

  Two families of operations follow.  \<open>js_add\<close>, \<open>js_sub\<close>, \<open>js_mul\<close> and \<open>js_div\<close> give the
  exact result; \<open>fl_add\<close>, \<open>fl_sub\<close>, \<open>fl_mul\<close> and \<open>fl_div\<close> round it to the nearest double as
  the operators of the language do.  The size of the canvas is computed with the rounding
  operations, because \<open>Math.floor\<close> turns a rounding error into a pixel.  The numbers
  handed to \<open>drawImage\<close> are not floored: the drawing loops use the exact operations, which
  differ from the doubles in the last bits, and so do the computations on array indices,
  whose results are small integers and exact in doubles.
\<close>

datatype jsnum = Fin real | PInf | NInf | NaN

definition num :: "nat \<Rightarrow> jsnum" where
  "num n = Fin (real n)"

definition signed_inf :: "bool \<Rightarrow> jsnum" where
  "signed_inf positive = (if positive then PInf else NInf)"

fun js_add :: "jsnum \<Rightarrow> jsnum \<Rightarrow> jsnum" where
  "js_add (Fin a) (Fin b) = Fin (a + b)"
| "js_add NaN _ = NaN"
| "js_add _ NaN = NaN"
| "js_add PInf NInf = NaN"
| "js_add NInf PInf = NaN"
| "js_add PInf _ = PInf"
| "js_add _ PInf = PInf"
| "js_add NInf _ = NInf"
| "js_add _ NInf = NInf"

fun js_neg :: "jsnum \<Rightarrow> jsnum" where
  "js_neg (Fin a) = Fin (- a)"
| "js_neg PInf = NInf"
| "js_neg NInf = PInf"
| "js_neg NaN = NaN"

definition js_sub :: "jsnum \<Rightarrow> jsnum \<Rightarrow> jsnum" where
  "js_sub a b = js_add a (js_neg b)"

fun js_mul :: "jsnum \<Rightarrow> jsnum \<Rightarrow> jsnum" where
  "js_mul (Fin a) (Fin b) = Fin (a * b)"
| "js_mul NaN _ = NaN"
| "js_mul _ NaN = NaN"
| "js_mul (Fin a) PInf = (if a = 0 then NaN else signed_inf (0 < a))"
| "js_mul (Fin a) NInf = (if a = 0 then NaN else signed_inf (a < 0))"
| "js_mul PInf (Fin b) = (if b = 0 then NaN else signed_inf (0 < b))"
| "js_mul NInf (Fin b) = (if b = 0 then NaN else signed_inf (b < 0))"
| "js_mul PInf PInf = PInf"
| "js_mul NInf NInf = PInf"
| "js_mul PInf NInf = NInf"
| "js_mul NInf PInf = NInf"

fun js_div :: "jsnum \<Rightarrow> jsnum \<Rightarrow> jsnum" where
  "js_div (Fin a) (Fin b) =
     (if b \<noteq> 0 then Fin (a / b) else if a = 0 then NaN else signed_inf (0 < a))"
| "js_div NaN _ = NaN"
| "js_div _ NaN = NaN"
| "js_div (Fin a) PInf = Fin 0"
| "js_div (Fin a) NInf = Fin 0"
| "js_div PInf (Fin b) = signed_inf (0 \<le> b)"
| "js_div NInf (Fin b) = signed_inf (b < 0)"
| "js_div PInf PInf = NaN"
| "js_div PInf NInf = NaN"
| "js_div NInf PInf = NaN"
| "js_div NInf NInf = NaN"

fun Math_min :: "jsnum \<Rightarrow> jsnum \<Rightarrow> jsnum" where
  "Math_min (Fin a) (Fin b) = Fin (min a b)"
| "Math_min NaN _ = NaN"
| "Math_min _ NaN = NaN"
| "Math_min NInf _ = NInf"
| "Math_min _ NInf = NInf"
| "Math_min PInf b = b"
| "Math_min a PInf = a"

fun Math_max :: "jsnum \<Rightarrow> jsnum \<Rightarrow> jsnum" where
  "Math_max (Fin a) (Fin b) = Fin (max a b)"
| "Math_max NaN _ = NaN"
| "Math_max _ NaN = NaN"
| "Math_max PInf _ = PInf"
| "Math_max _ PInf = PInf"
| "Math_max NInf b = b"
| "Math_max a NInf = a"

text \<open>\<open>Math.max(...xs)\<close>: the maximum of no numbers is \<open>-Infinity\<close>.\<close>

definition Math_max_list :: "jsnum list \<Rightarrow> jsnum" where
  "Math_max_list xs = foldl Math_max NInf xs"

fun Math_floor :: "jsnum \<Rightarrow> jsnum" where
  "Math_floor (Fin a) = Fin (of_int \<lfloor>a\<rfloor>)"
| "Math_floor v = v"

fun Math_ceil :: "jsnum \<Rightarrow> jsnum" where
  "Math_ceil (Fin a) = Fin (of_int \<lceil>a\<rceil>)"
| "Math_ceil v = v"

subsection \<open>Rounding to the nearest double\<close>

text \<open>
  A double has 53 significant bits.  For a number in the binade from \<open>2^e\<close> to \<open>2^(e+1)\<close>
  the doubles lie \<open>2^(e-52)\<close> apart, and below \<open>2^(-1022)\<close> they lie \<open>2^(-1074)\<close> apart (the
  subnormal numbers); this distance is \<open>ulp\<close>.  An operation returns the double nearest to
  the exact result, the one with the even last bit when two are equally near, and an
  infinity when the rounded result reaches \<open>2^1024\<close>.
\<close>

definition tiny :: real where
  "tiny = 2 powi (- 1074)"

definition huge :: real where
  "huge = 2 powi 1024"

definition ulp :: "real \<Rightarrow> real" where
  "ulp x =
     (if x = 0 \<or> \<lfloor>log 2 \<bar>x\<bar>\<rfloor> < - 1022 then tiny else 2 powi (\<lfloor>log 2 \<bar>x\<bar>\<rfloor> - 52))"

definition round_even :: "real \<Rightarrow> int" where
  "round_even y =
     (if y - of_int \<lfloor>y\<rfloor> < 1 / 2 then \<lfloor>y\<rfloor>
      else if 1 / 2 < y - of_int \<lfloor>y\<rfloor> then \<lfloor>y\<rfloor> + 1
      else if even \<lfloor>y\<rfloor> then \<lfloor>y\<rfloor> else \<lfloor>y\<rfloor> + 1)"

definition rd :: "real \<Rightarrow> real" where
  "rd x = of_int (round_even (x / ulp x)) * ulp x"

definition fl :: "real \<Rightarrow> jsnum" where
  "fl x = (if huge \<le> \<bar>rd x\<bar> then signed_inf (0 < x) else Fin (rd x))"

definition round_double :: "jsnum \<Rightarrow> jsnum" where
  "round_double v = (case v of Fin x \<Rightarrow> fl x | _ \<Rightarrow> v)"

definition fl_add :: "jsnum \<Rightarrow> jsnum \<Rightarrow> jsnum" where
  "fl_add a b = round_double (js_add a b)"

definition fl_sub :: "jsnum \<Rightarrow> jsnum \<Rightarrow> jsnum" where
  "fl_sub a b = round_double (js_sub a b)"

definition fl_mul :: "jsnum \<Rightarrow> jsnum \<Rightarrow> jsnum" where
  "fl_mul a b = round_double (js_mul a b)"

definition fl_div :: "jsnum \<Rightarrow> jsnum \<Rightarrow> jsnum" where
  "fl_div a b = round_double (js_div a b)"

subsection \<open>Indices and defaults\<close>

text \<open>\<open>i % cols\<close> on two array indices: the remainder, and NaN for a zero divisor.\<close>

definition js_rem :: "nat \<Rightarrow> nat \<Rightarrow> jsnum" where
  "js_rem i c = (if c = 0 then NaN else num (i mod c))"

text \<open>
  \<open>v || d\<close> on an optional number: the default replaces \<open>undefined\<close> and the falsy
  numbers, which are zero and NaN.
\<close>

definition truthy :: "jsnum \<Rightarrow> bool" where
  "truthy v = (v \<noteq> Fin 0 \<and> v \<noteq> NaN)"

definition or_default :: "jsnum option \<Rightarrow> jsnum \<Rightarrow> jsnum" where
  "or_default v d = (case v of None \<Rightarrow> d | Some w \<Rightarrow> if truthy w then w else d)"

section \<open>Data model\<close>

text \<open>
  A decoded image (\<open>HTMLImageElement\<close>): its width and height are \<open>unsigned long\<close>
  attributes, integers below \<open>2^32\<close>.
\<close>

record image =
  width :: nat
  height :: nat

definition unsigned_long :: "nat \<Rightarrow> bool" where
  "unsigned_long n = (n < 4294967296)"

datatype layout = Horizontal | Vertical | Grid

text \<open>The \<open>options\<close> argument; every field may be omitted.\<close>

record options =
  layout :: "layout option"
  spacing :: "jsnum option"
  backgroundColor :: "string option"
  maxWidth :: "jsnum option"

text \<open>One call \<open>ctx.drawImage(img, x, y, scaledWidth, scaledHeight)\<close>.\<close>

record placement =
  img :: image
  pos_x :: jsnum
  pos_y :: jsnum
  scaledWidth :: jsnum
  scaledHeight :: jsnum

text \<open>
  The canvas when it is encoded: its stored size, the string assigned to \<open>ctx.fillStyle\<close>
  before the background is filled, and the draw calls in the order they were made.
\<close>

record canvas =
  cv_width :: nat
  cv_height :: nat
  fillStyle :: string
  drawn :: "placement list"

text \<open>
  The failures \<open>mergeImages\<close> returns as \<open>{ success: false, error }\<close>: the two input checks,
  the missing drawing context, and the two rejected promises that the \<open>catch\<close> block turns
  into a failure.
\<close>

datatype merge_error =
  NoImagesSelected
  | AtLeastTwoImages
  | NoCanvasContext
  | FailedToLoadImage
  | FailedToCreateBlob

fun error_message :: "merge_error \<Rightarrow> string" where
  "error_message NoImagesSelected = ''No images selected''"
| "error_message AtLeastTwoImages = ''Please select at least 2 images to merge''"
| "error_message NoCanvasContext = ''Could not create canvas context''"
| "error_message FailedToLoadImage = ''Failed to load image''"
| "error_message FailedToCreateBlob = ''Failed to create image blob''"

text \<open>The spec's \<open>InsufficientInputError\<close>: either of the two input checks.\<close>

definition insufficient_input :: "merge_error \<Rightarrow> bool" where
  "insufficient_input e = (e = NoImagesSelected \<or> e = AtLeastTwoImages)"

text \<open>
  What the browser decides: whether a file decodes (\<open>loadImageFromFile\<close> resolves or
  rejects), whether \<open>getContext('2d')\<close> returns a context, whether \<open>toBlob\<close> yields a blob
  for a canvas that has pixels.
\<close>

record 'f env =
  loadImageFromFile :: "'f \<Rightarrow> image option"
  getContext :: bool
  toBlob :: bool

text \<open>
  Assigning a number to \<open>canvas.width\<close> or \<open>canvas.height\<close>.  Both are \<open>unsigned long\<close>
  attributes of the DOM that reflect a content attribute: a non-finite number is stored as
  0, a finite one is truncated and reduced modulo \<open>2^32\<close>, and a result above \<open>2^31 - 1\<close>
  is replaced by the attribute's default (300 for the width, 150 for the height).  An
  integer from 0 to \<open>2^31 - 1\<close> is stored as it is.
\<close>

definition canvas_attr :: "nat \<Rightarrow> jsnum \<Rightarrow> nat" where
  "canvas_attr dflt v =
     (case v of
        Fin r \<Rightarrow>
          (let u = (if 0 \<le> r then \<lfloor>r\<rfloor> else \<lceil>r\<rceil>) mod 4294967296
           in if u \<le> 2147483647 then nat u else dflt)
      | _ \<Rightarrow> 0)"

section \<open>The collage layout\<close>

text \<open>\<open>images.reduce((sum, img) => sum + img.width, 0)\<close> and its twin for the heights.\<close>

definition totalWidth :: "image list \<Rightarrow> jsnum" where
  "totalWidth images = foldl (\<lambda>sum i. fl_add sum (num (width i))) (Fin 0) images"

definition totalHeight :: "image list \<Rightarrow> jsnum" where
  "totalHeight images = foldl (\<lambda>sum i. fl_add sum (num (height i))) (Fin 0) images"

text \<open>\<open>Math.max(...images.map((img) => img.width))\<close> and its twin for the heights.\<close>

definition maxImgWidth :: "image list \<Rightarrow> jsnum" where
  "maxImgWidth images = Math_max_list (map (\<lambda>i. num (width i)) images)"

definition maxImgHeight :: "image list \<Rightarrow> jsnum" where
  "maxImgHeight images = Math_max_list (map (\<lambda>i. num (height i)) images)"

text \<open>
  \<open>Math.ceil(Math.sqrt(images.length))\<close>: the length is a non-negative integer, so the
  square root is defined and the result is a non-negative integer.
\<close>

definition grid_cols :: "nat \<Rightarrow> nat" where
  "grid_cols n = nat \<lceil>sqrt (real n)\<rceil>"

text \<open>\<open>Math.ceil(images.length / cols)\<close>.\<close>

definition grid_rows :: "nat \<Rightarrow> jsnum" where
  "grid_rows n = Math_ceil (js_div (num n) (num (grid_cols n)))"

text \<open>
  The block "Calculate canvas dimensions": the values of \<open>canvasWidth\<close> and \<open>canvasHeight\<close>
  before they are floored, every operation rounded to a double.
\<close>

definition canvasDims :: "layout \<Rightarrow> image list \<Rightarrow> jsnum \<Rightarrow> jsnum \<Rightarrow> jsnum \<times> jsnum" where
  "canvasDims lay images spc maxW =
     (case lay of
        Horizontal \<Rightarrow>
          (let totalW = totalWidth images;
               maxHeight = maxImgHeight images;
               scale = Math_min (Fin 1) (fl_div maxW totalW)
           in (fl_mul (fl_add totalW (fl_mul spc (fl_sub (num (length images)) (Fin 1)))) scale,
               fl_mul maxHeight scale))
      | Vertical \<Rightarrow>
          (let maxImgW = maxImgWidth images;
               scale = Math_min (Fin 1) (fl_div maxW maxImgW);
               totalH = totalHeight images
           in (fl_mul maxImgW scale,
               fl_mul (fl_add totalH (fl_mul spc (fl_sub (num (length images)) (Fin 1)))) scale))
      | Grid \<Rightarrow>
          (let cols = num (grid_cols (length images));
               rows = grid_rows (length images);
               maxImgW = maxImgWidth images;
               maxImgH = maxImgHeight images;
               scale = Math_min (Fin 1) (fl_div maxW (fl_mul maxImgW cols))
           in (fl_mul (fl_add (fl_mul maxImgW cols) (fl_mul spc (fl_sub cols (Fin 1)))) scale,
               fl_mul (fl_add (fl_mul maxImgH rows) (fl_mul spc (fl_sub rows (Fin 1)))) scale)))"

text \<open>
  The three drawing loops.  Each runs over the images in input order; the horizontal loop
  carries the cursor \<open>x\<close>, the vertical loop the cursor \<open>y\<close>, the grid loop the index \<open>i\<close>.
\<close>

fun draw_horizontal :: "jsnum \<Rightarrow> jsnum \<Rightarrow> jsnum \<Rightarrow> jsnum \<Rightarrow> image list \<Rightarrow> placement list" where
  "draw_horizontal scale ch spc x [] = []"
| "draw_horizontal scale ch spc x (im # rest) =
     (let sw = js_mul (num (width im)) scale;
          sh = js_mul (num (height im)) scale;
          offsetY = js_div (js_sub ch sh) (Fin 2)
      in \<lparr>img = im, pos_x = x, pos_y = offsetY, scaledWidth = sw, scaledHeight = sh\<rparr>
         # draw_horizontal scale ch spc (js_add x (js_add sw spc)) rest)"

fun draw_vertical :: "jsnum \<Rightarrow> jsnum \<Rightarrow> jsnum \<Rightarrow> jsnum \<Rightarrow> image list \<Rightarrow> placement list" where
  "draw_vertical scale cw spc y [] = []"
| "draw_vertical scale cw spc y (im # rest) =
     (let sw = js_mul (num (width im)) scale;
          sh = js_mul (num (height im)) scale;
          offsetX = js_div (js_sub cw sw) (Fin 2)
      in \<lparr>img = im, pos_x = offsetX, pos_y = y, scaledWidth = sw, scaledHeight = sh\<rparr>
         # draw_vertical scale cw spc (js_add y (js_add sh spc)) rest)"

fun draw_grid :: "jsnum \<Rightarrow> nat \<Rightarrow> jsnum \<Rightarrow> jsnum \<Rightarrow> jsnum \<Rightarrow> nat \<Rightarrow> image list \<Rightarrow> placement list" where
  "draw_grid scale cols maxImgW maxImgH spc i [] = []"
| "draw_grid scale cols maxImgW maxImgH spc i (im # rest) =
     (let col = js_rem i cols;
          row = Math_floor (js_div (num i) (num cols));
          sw = js_mul (num (width im)) scale;
          sh = js_mul (num (height im)) scale;
          x = js_mul col (js_add (js_mul maxImgW scale) spc);
          y = js_mul row (js_add (js_mul maxImgH scale) spc)
      in \<lparr>img = im, pos_x = x, pos_y = y, scaledWidth = sw, scaledHeight = sh\<rparr>
         # draw_grid scale cols maxImgW maxImgH spc (Suc i) rest)"

text \<open>
  The block "Draw images", given the stored canvas size: each branch derives its own scale
  from the canvas and runs its loop from \<open>x = 0\<close>, \<open>y = 0\<close>, \<open>i = 0\<close>.  The operations are the
  exact ones.
\<close>

definition drawImages :: "layout \<Rightarrow> nat \<Rightarrow> nat \<Rightarrow> image list \<Rightarrow> jsnum \<Rightarrow> placement list" where
  "drawImages lay cw ch images spc =
     (case lay of
        Horizontal \<Rightarrow>
          (let scale = js_div (num ch) (maxImgHeight images)
           in draw_horizontal scale (num ch) spc (Fin 0) images)
      | Vertical \<Rightarrow>
          (let maxImgW = maxImgWidth images;
               scale = js_div (num cw) maxImgW
           in draw_vertical scale (num cw) spc (Fin 0) images)
      | Grid \<Rightarrow>
          (let cols = grid_cols (length images);
               maxImgW = maxImgWidth images;
               maxImgH = maxImgHeight images;
               scale = js_div (num cw)
                 (js_add (js_mul maxImgW (num cols)) (js_mul spc (js_sub (num cols) (Fin 1))))
           in draw_grid scale cols maxImgW maxImgH spc 0 images))"

text \<open>The options after \<open>||\<close> has put in the defaults.\<close>

definition eff_layout :: "options \<Rightarrow> layout" where
  "eff_layout opts = (case layout opts of None \<Rightarrow> Vertical | Some l \<Rightarrow> l)"

definition eff_spacing :: "options \<Rightarrow> jsnum" where
  "eff_spacing opts = or_default (spacing opts) (Fin 10)"

definition eff_backgroundColor :: "options \<Rightarrow> string" where
  "eff_backgroundColor opts =
     (case backgroundColor opts of None \<Rightarrow> ''#ffffff''
      | Some c \<Rightarrow> if c = [] then ''#ffffff'' else c)"

definition eff_maxWidth :: "options \<Rightarrow> jsnum" where
  "eff_maxWidth opts = or_default (maxWidth opts) (Fin 1200)"

text \<open>
  \<open>mergeImages\<close>.  The argument has the type \<open>File[]\<close>, so the test \<open>!imageFiles\<close> only
  guards the empty list.  \<open>Promise.all\<close> rejects as soon as one file fails to load.
  \<open>canvas.toBlob\<close> calls back with \<open>null\<close> when the canvas has no pixels, that is when its
  width or its height is 0, and the promise is then rejected like for any other missing
  blob.  The successful result carries the blob of the canvas, represented by the canvas
  itself; its object URL and its time-stamped file name are left out.
\<close>

definition mergeImages :: "'f env \<Rightarrow> 'f list \<Rightarrow> options \<Rightarrow> merge_error + canvas" where
  "mergeImages e imageFiles opts =
     (if length imageFiles = 0 then Inl NoImagesSelected
      else if length imageFiles = 1 then Inl AtLeastTwoImages
      else
        let lay = eff_layout opts;
            spc = eff_spacing opts;
            bg = eff_backgroundColor opts;
            maxW = eff_maxWidth opts
        in case those (map (loadImageFromFile e) imageFiles) of
             None \<Rightarrow> Inl FailedToLoadImage
           | Some images \<Rightarrow>
               (let (canvasWidth, canvasHeight) = canvasDims lay images spc maxW;
                    cw = canvas_attr 300 (Math_floor canvasWidth);
                    ch = canvas_attr 150 (Math_floor canvasHeight)
                in if \<not> getContext e then Inl NoCanvasContext
                   else
                     let ds = drawImages lay cw ch images spc
                     in if cw = 0 \<or> ch = 0 then Inl FailedToCreateBlob
                        else if toBlob e
                        then Inr \<lparr>cv_width = cw, cv_height = ch, fillStyle = bg, drawn = ds\<rparr>
                        else Inl FailedToCreateBlob))"

section \<open>Concrete inputs\<close>

text \<open>
  A browser in which every step succeeds and a file is the image it decodes to, and the two
  images of the spec's scenarios.
\<close>

definition browser_ok :: "image env" where
  "browser_ok = \<lparr>loadImageFromFile = Some, getContext = True, toBlob = True\<rparr>"

definition two_images :: "image list" where
  "two_images = [\<lparr>width = 100, height = 200\<rparr>, \<lparr>width = 300, height = 100\<rparr>]"

definition merge_options :: "layout \<Rightarrow> real \<Rightarrow> real \<Rightarrow> options" where
  "merge_options lay s m =
     \<lparr>layout = Some lay, spacing = Some (Fin s), backgroundColor = None,
      maxWidth = Some (Fin m)\<rparr>"

text \<open>
  What the scenario's two images give in horizontal, vertical and grid layout with spacing 10
  and maximal width 1200.
\<close>

definition horizontal_scenario :: canvas where
  "horizontal_scenario =
     \<lparr>cv_width = 410, cv_height = 200, fillStyle = ''#ffffff'',
      drawn = [\<lparr>img = \<lparr>width = 100, height = 200\<rparr>, pos_x = Fin 0, pos_y = Fin 0,
                scaledWidth = Fin 100, scaledHeight = Fin 200\<rparr>,
               \<lparr>img = \<lparr>width = 300, height = 100\<rparr>, pos_x = Fin 110, pos_y = Fin 50,
                scaledWidth = Fin 300, scaledHeight = Fin 100\<rparr>]\<rparr>"

definition vertical_scenario :: canvas where
  "vertical_scenario =
     \<lparr>cv_width = 300, cv_height = 310, fillStyle = ''#ffffff'',
      drawn = [\<lparr>img = \<lparr>width = 100, height = 200\<rparr>, pos_x = Fin 100, pos_y = Fin 0,
                scaledWidth = Fin 100, scaledHeight = Fin 200\<rparr>,
               \<lparr>img = \<lparr>width = 300, height = 100\<rparr>, pos_x = Fin 0, pos_y = Fin 210,
                scaledWidth = Fin 300, scaledHeight = Fin 100\<rparr>]\<rparr>"

definition grid_scenario :: canvas where
  "grid_scenario =
     \<lparr>cv_width = 610, cv_height = 200, fillStyle = ''#ffffff'',
      drawn = [\<lparr>img = \<lparr>width = 100, height = 200\<rparr>, pos_x = Fin 0, pos_y = Fin 0,
                scaledWidth = Fin 100, scaledHeight = Fin 200\<rparr>,
               \<lparr>img = \<lparr>width = 300, height = 100\<rparr>, pos_x = Fin 310, pos_y = Fin 0,
                scaledWidth = Fin 300, scaledHeight = Fin 100\<rparr>]\<rparr>"

text \<open>
  Two images that are together wider than the maximal width, and what they give in
  horizontal layout with spacing 100 and maximal width 1200.
\<close>

definition wide_images :: "image list" where
  "wide_images = [\<lparr>width = 1200, height = 100\<rparr>, \<lparr>width = 1200, height = 100\<rparr>]"

definition wide_scenario :: canvas where
  "wide_scenario =
     \<lparr>cv_width = 1250, cv_height = 50, fillStyle = ''#ffffff'',
      drawn = [\<lparr>img = \<lparr>width = 1200, height = 100\<rparr>, pos_x = Fin 0, pos_y = Fin 0,
                scaledWidth = Fin 600, scaledHeight = Fin 50\<rparr>,
               \<lparr>img = \<lparr>width = 1200, height = 100\<rparr>, pos_x = Fin 700, pos_y = Fin 0,
                scaledWidth = Fin 600, scaledHeight = Fin 50\<rparr>]\<rparr>"

text \<open>
  Images whose scaled size falls just below a whole number of pixels in doubles.
\<close>

definition near_images_horizontal :: "image list" where
  "near_images_horizontal = [\<lparr>width = 696, height = 145\<rparr>, \<lparr>width = 696, height = 100\<rparr>]"

definition near_images_vertical :: "image list" where
  "near_images_vertical = [\<lparr>width = 2191, height = 10\<rparr>, \<lparr>width = 100, height = 10\<rparr>]"

definition near_images_grid :: "image list" where
  "near_images_grid = [\<lparr>width = 1760, height = 100\<rparr>, \<lparr>width = 100, height = 100\<rparr>]"

text \<open>
  The spec's words for the extent that a run of draw calls covers along the main axis: the sum
  of the per-image advances (the scaled width or height plus the spacing) minus the one
  trailing spacing.
\<close>

definition advance_sum :: "(placement \<Rightarrow> jsnum) \<Rightarrow> jsnum \<Rightarrow> placement list \<Rightarrow> jsnum" where
  "advance_sum extent spc ps =
     js_sub (foldl (\<lambda>a p. js_add a (js_add (extent p) spc)) (Fin 0) ps) spc"

text \<open>
  The rectangle a draw call covers.  \<open>drawImage\<close> returns without drawing when one of its
  numbers is infinite or NaN; a negative width or height mirrors the rectangle, which then
  reaches from \<open>x + w\<close> to \<open>x\<close>.  Two rectangles overlap when their interiors share a point.
\<close>

definition rect :: "placement \<Rightarrow> (real \<times> real \<times> real \<times> real) option" where
  "rect p =
     (case pos_x p of
        Fin x \<Rightarrow>
          (case pos_y p of
             Fin y \<Rightarrow>
               (case scaledWidth p of
                  Fin w \<Rightarrow> (case scaledHeight p of Fin h \<Rightarrow> Some (x, y, w, h) | _ \<Rightarrow> None)
                | _ \<Rightarrow> None)
           | _ \<Rightarrow> None)
      | _ \<Rightarrow> None)"



section \<open>Rounding\<close>

lemma tiny_pos [simp]: "0 < tiny"
  by (simp add: tiny_def)

lemma huge_pos [simp]: "0 < huge"
  by (simp add: huge_def)

lemma round_even_of_int [simp]: "round_even (of_int k) = k"
  by (simp add: round_even_def)

lemma round_even_0 [simp]: "round_even 0 = 0"
  using round_even_of_int [of 0] by simp

lemma round_even_err: "\<bar>of_int (round_even y) - y\<bar> \<le> 1 / 2"
proof -
  have "of_int \<lfloor>y\<rfloor> \<le> y" and "y < of_int \<lfloor>y\<rfloor> + 1" by linarith+
  then show ?thesis by (auto simp add: round_even_def)
qed

lemma round_even_nonneg: "0 \<le> y \<Longrightarrow> 0 \<le> round_even y"
  by (auto simp add: round_even_def)

lemma round_even_unique:
  assumes "\<bar>y - of_int k\<bar> < 1 / 2"
  shows "round_even y = k"
proof -
  have e: "\<bar>of_int (round_even y) - y\<bar> \<le> 1 / 2" by (rule round_even_err)
  have "\<bar>(of_int (round_even y) :: real) - of_int k\<bar> < 1" using e assms by linarith
  then have "\<bar>round_even y - k\<bar> < 1"
    by (metis of_int_abs of_int_diff of_int_less_1_iff)
  then show ?thesis by linarith
qed

lemma ulp_pos [simp]: "0 < ulp x"
  by (simp add: ulp_def)

lemma ulp_nonneg [simp]: "0 \<le> ulp x"
  using ulp_pos [of x] by (rule less_imp_le)

lemma ulp_neq0 [simp]: "ulp x \<noteq> 0"
  using ulp_pos [of x] by (rule less_imp_neq [symmetric])

lemma powr_powi: "(2::real) powr real_of_int k = 2 powi k"
  by (simp add: powr_real_of_int')

lemma floor_log2_eq:
  assumes "2 powi e \<le> \<bar>x\<bar>" and "\<bar>x\<bar> < 2 powi (e + 1)"
  shows "\<lfloor>log 2 \<bar>x\<bar>\<rfloor> = e"
proof -
  have p: "0 < \<bar>x\<bar>" using assms(1) zero_less_power_int [of "2::real" e] by linarith
  have b: "(2::real) powr (real_of_int e + 1) = 2 powi (e + 1)"
    using powr_powi [of "e + 1"] by simp
  show ?thesis
    using assms p by (simp add: floor_log_eq_powr_iff powr_powi b)
qed

lemma binade:
  assumes "x \<noteq> 0"
  shows "2 powi \<lfloor>log 2 \<bar>x\<bar>\<rfloor> \<le> \<bar>x\<bar>" and "\<bar>x\<bar> < 2 powi (\<lfloor>log 2 \<bar>x\<bar>\<rfloor> + 1)"
proof -
  have p: "0 < \<bar>x\<bar>" using assms by simp
  have "2 powr real_of_int \<lfloor>log 2 \<bar>x\<bar>\<rfloor> \<le> \<bar>x\<bar> \<and>
      \<bar>x\<bar> < 2 powr (real_of_int \<lfloor>log 2 \<bar>x\<bar>\<rfloor> + 1)"
    using floor_log_eq_powr_iff [of "\<bar>x\<bar>" 2 "\<lfloor>log 2 \<bar>x\<bar>\<rfloor>"] p by simp
  moreover have "(2::real) powr (real_of_int k + 1) = 2 powi (k + 1)" for k
    using powr_powi [of "k + 1"] by simp
  ultimately show "2 powi \<lfloor>log 2 \<bar>x\<bar>\<rfloor> \<le> \<bar>x\<bar>" and "\<bar>x\<bar> < 2 powi (\<lfloor>log 2 \<bar>x\<bar>\<rfloor> + 1)"
    by (simp_all add: powr_powi)
qed

lemma rd_0 [simp]: "rd 0 = 0"
  by (simp add: rd_def)

lemma rd_nonneg: "0 \<le> x \<Longrightarrow> 0 \<le> rd x"
  unfolding rd_def by (intro mult_nonneg_nonneg) (simp_all add: round_even_nonneg)

lemma rd_err_ulp: "\<bar>rd x - x\<bar> \<le> ulp x / 2"
proof -
  have "\<bar>of_int (round_even (x / ulp x)) - x / ulp x\<bar> \<le> 1 / 2" by (rule round_even_err)
  then have "\<bar>of_int (round_even (x / ulp x)) - x / ulp x\<bar> * ulp x \<le> 1 / 2 * ulp x"
    by (intro mult_right_mono) simp_all
  moreover have "\<bar>of_int (round_even (x / ulp x)) - x / ulp x\<bar> * ulp x = \<bar>rd x - x\<bar>"
  proof -
    have "\<bar>of_int (round_even (x / ulp x)) - x / ulp x\<bar> * ulp x
        = \<bar>(of_int (round_even (x / ulp x)) - x / ulp x) * ulp x\<bar>"
      by (simp add: abs_mult)
    also have "(of_int (round_even (x / ulp x)) - x / ulp x) * ulp x = rd x - x"
      by (simp add: rd_def left_diff_distrib)
    finally show ?thesis .
  qed
  ultimately show ?thesis by simp
qed

lemma ulp_le: "ulp x \<le> \<bar>x\<bar> / 2 ^ 52 + tiny"
proof (cases "x = 0 \<or> \<lfloor>log 2 \<bar>x\<bar>\<rfloor> < - 1022")
  case True
  then have "ulp x = tiny" by (simp add: ulp_def)
  then show ?thesis by simp
next
  case False
  then have nz: "x \<noteq> 0" by simp
  from False have "ulp x = 2 powi (\<lfloor>log 2 \<bar>x\<bar>\<rfloor> - 52)" by (simp add: ulp_def)
  also have "\<dots> = 2 powi \<lfloor>log 2 \<bar>x\<bar>\<rfloor> / 2 ^ 52" by (simp add: power_int_diff)
  also have "\<dots> \<le> \<bar>x\<bar> / 2 ^ 52" using binade(1) [OF nz] by (simp add: divide_right_mono)
  finally show ?thesis using tiny_pos by linarith
qed

lemma rd_err: "\<bar>rd x - x\<bar> \<le> \<bar>x\<bar> / 2 ^ 53 + tiny / 2"
  using rd_err_ulp [of x] ulp_le [of x] by simp

lemma ulp_eq:
  assumes "2 powi e \<le> \<bar>x\<bar>" and "\<bar>x\<bar> < 2 powi (e + 1)" and "- 1022 \<le> e"
  shows "ulp x = 2 powi (e - 52)"
proof -
  have "0 < \<bar>x\<bar>" using assms(1) zero_less_power_int [of "2::real" e] by linarith
  then have "x \<noteq> 0" by simp
  then show ?thesis using assms(3) by (simp add: ulp_def floor_log2_eq [OF assms(1,2)])
qed

lemma ulp_is_power:
  "\<exists>q. ulp x = 2 powi q \<and> - 1074 \<le> q \<and> (x \<noteq> 0 \<longrightarrow> q = max \<lfloor>log 2 \<bar>x\<bar>\<rfloor> (- 1022) - 52)"
proof -
  define L where "L = \<lfloor>log 2 \<bar>x\<bar>\<rfloor>"
  have "\<exists>q. ulp x = 2 powi q \<and> - 1074 \<le> q \<and> (x \<noteq> 0 \<longrightarrow> q = max L (- 1022) - 52)"
  proof (cases "x = 0 \<or> L < - 1022")
    case True
    then have a: "ulp x = 2 powi (- 1074)" unfolding ulp_def tiny_def L_def by (rule if_P)
    have b: "x \<noteq> 0 \<longrightarrow> (- 1074::int) = max L (- 1022) - 52" using True by (auto simp add: max_def)
    have c: "(- 1074::int) \<le> - 1074" by simp
    from a c b show ?thesis by blast
  next
    case False
    then have a: "ulp x = 2 powi (L - 52)" unfolding ulp_def L_def by (rule if_not_P)
    have b: "x \<noteq> 0 \<longrightarrow> L - 52 = max L (- 1022) - 52" using False by (auto simp add: max_def)
    have c: "- 1074 \<le> L - 52" using False by auto
    from a c b show ?thesis by blast
  qed
  then show ?thesis unfolding L_def .
qed

lemma power_int_less_cancel:
  assumes "(2::real) powi a < 2 powi b"
  shows "a < b"
proof (rule ccontr)
  assume "\<not> a < b"
  then have "b \<le> a" by simp
  then have "(2::real) powi b \<le> 2 powi a" by (intro power_int_increasing) simp_all
  then show False using assms by simp
qed

lemma powi_neg_nat: "(2::real) powi (- int n) = 1 / 2 ^ n"
  by (simp only: power_int_minus power_int_of_nat inverse_eq_divide)

lemma rd_eval:
  assumes "2 powi e \<le> \<bar>x\<bar>" and "\<bar>x\<bar> < 2 powi (e + 1)" and "- 1022 \<le> e"
    and "\<bar>x / 2 powi (e - 52) - of_int k\<bar> < 1 / 2"
  shows "rd x = of_int k * 2 powi (e - 52)"
  unfolding rd_def ulp_eq [OF assms(1-3)] round_even_unique [OF assms(4)] ..

lemma rd_integer_multiple:
  assumes "x / ulp x = of_int i"
  shows "rd x = x"
proof -
  have "rd x = of_int i * ulp x" unfolding rd_def assms by simp
  also have "\<dots> = x / ulp x * ulp x" unfolding assms ..
  finally show ?thesis by simp
qed

lemma rd_exact:
  assumes "x = of_int k * 2 powi j" and "\<bar>k\<bar> < 2 ^ 53" and "- 1074 \<le> j"
  shows "rd x = x"
proof (cases "k = 0")
  case True
  then show ?thesis using assms(1) by simp
next
  case False
  then have nz: "x \<noteq> 0" using assms(1) by simp
  obtain q where q: "ulp x = 2 powi q" and q1: "- 1074 \<le> q"
    and q2: "q = max \<lfloor>log 2 \<bar>x\<bar>\<rfloor> (- 1022) - 52"
    using ulp_is_power [of x] nz by blast
  have "\<bar>x\<bar> = real_of_int \<bar>k\<bar> * 2 powi j" by (simp add: assms(1) abs_mult)
  also have "\<dots> < 2 ^ 53 * 2 powi j"
  proof -
    have "real_of_int \<bar>k\<bar> < 2 ^ 53" using assms(2) by (metis of_int_less_iff of_int_numeral of_int_power)
    then show ?thesis by (intro mult_strict_right_mono) simp_all
  qed
  also have "\<dots> = 2 powi (53 + j)" by (simp add: power_int_add)
  finally have up: "\<bar>x\<bar> < 2 powi (53 + j)" .
  have "2 powi \<lfloor>log 2 \<bar>x\<bar>\<rfloor> \<le> \<bar>x\<bar>" by (rule binade(1) [OF nz])
  then have "(2::real) powi \<lfloor>log 2 \<bar>x\<bar>\<rfloor> < 2 powi (53 + j)" using up by linarith
  then have "\<lfloor>log 2 \<bar>x\<bar>\<rfloor> < 53 + j" by (rule power_int_less_cancel)
  then have qj: "q \<le> j" using q2 assms(3) by (simp add: max_def)
  have "x / ulp x = x / 2 powi q" by (simp only: q)
  also have "\<dots> = of_int k * (2 powi j / 2 powi q)" by (simp only: assms(1) times_divide_eq_right)
  also have "2 powi j / (2::real) powi q = 2 powi (j - q)" by (simp add: power_int_diff)
  also have "\<dots> = 2 ^ nat (j - q)" using qj by (simp add: power_int_def)
  also have "of_int k * (2::real) ^ nat (j - q) = of_int (k * 2 ^ nat (j - q))" by simp
  finally show ?thesis by (rule rd_integer_multiple)
qed

lemma rd_of_int:
  assumes "\<bar>k\<bar> \<le> 2 ^ 53"
  shows "rd (of_int k) = of_int k"
proof (cases "\<bar>k\<bar> < 2 ^ 53")
  case True
  show ?thesis using True by (intro rd_exact [of _ k 0]) simp_all
next
  case False
  then have "\<bar>k\<bar> = 2 ^ 53" using assms by linarith
  then consider "k = 2 ^ 53" | "k = - (2 ^ 53)" by linarith
  then show ?thesis
  proof cases
    case 1
    show ?thesis by (rule rd_exact [of _ "2 ^ 52" 1]) (simp_all add: 1)
  next
    case 2
    show ?thesis by (rule rd_exact [of _ "- (2 ^ 52)" 1]) (simp_all add: 2)
  qed
qed

lemma rd_of_nat: "n \<le> 2 ^ 53 \<Longrightarrow> rd (real n) = real n"
  using rd_of_int [of "int n"] by simp

lemma rd_half: "rd (1 / 2) = 1 / 2"
  by (rule rd_exact [of _ 1 "- 1"]) simp_all

lemma rd_eval_ge1:
  assumes "2 ^ a \<le> \<bar>x\<bar>" and "\<bar>x\<bar> < 2 * 2 ^ a" and "a \<le> 52"
    and "\<bar>x * 2 ^ (52 - a) - of_int k\<bar> < 1 / 2"
  shows "rd x = of_int k / 2 ^ (52 - a)"
proof -
  have e: "(2::real) powi (int a - 52) = 1 / 2 ^ (52 - a)"
  proof -
    have "int a - 52 = - int (52 - a)" using assms(3) by simp
    then show ?thesis by (simp only: powi_neg_nat)
  qed
  have "rd x = of_int k * 2 powi (int a - 52)"
  proof (rule rd_eval)
    show "2 powi int a \<le> \<bar>x\<bar>" using assms(1) by simp
    show "\<bar>x\<bar> < 2 powi (int a + 1)" using assms(2) by (simp add: power_int_add)
    show "- 1022 \<le> int a" by simp
    show "\<bar>x / 2 powi (int a - 52) - of_int k\<bar> < 1 / 2" using assms(4) by (simp add: e)
  qed
  then show ?thesis by (simp add: e)
qed

lemma rd_eval_lt1:
  assumes "1 \<le> \<bar>x\<bar> * 2 ^ b" and "\<bar>x\<bar> * 2 ^ b < 2" and "b \<le> 1022"
    and "\<bar>x * 2 ^ (52 + b) - of_int k\<bar> < 1 / 2"
  shows "rd x = of_int k / 2 ^ (52 + b)"
proof -
  have e: "(2::real) powi (- int b - 52) = 1 / 2 ^ (52 + b)"
  proof -
    have "- int b - 52 = - int (52 + b)" by simp
    then show ?thesis by (simp only: powi_neg_nat)
  qed
  have b: "(2::real) powi (- int b) = 1 / 2 ^ b"
    by (rule powi_neg_nat)
  have "rd x = of_int k * 2 powi (- int b - 52)"
  proof (rule rd_eval)
    show "2 powi (- int b) \<le> \<bar>x\<bar>" using assms(1) by (simp add: b field_simps)
    have "(2::real) powi (- int b + 1) = 2 powi (- int b) * 2" by (rule power_int_add_1) simp
    then have p: "(2::real) powi (- int b + 1) = 2 / 2 ^ b" by (simp only: b)
    have "\<bar>x\<bar> < 2 / 2 ^ b" using assms(2) by (simp add: pos_less_divide_eq)
    then show "\<bar>x\<bar> < 2 powi (- int b + 1)" by (simp only: p)
    show "- 1022 \<le> - int b" using assms(3) by simp
    show "\<bar>x / 2 powi (- int b - 52) - of_int k\<bar> < 1 / 2" using assms(4) by (simp add: e)
  qed
  then show ?thesis by (simp add: e)
qed

section \<open>Rounded operations\<close>

lemma one_le_huge: "1 \<le> huge"
proof -
  have "(2::real) powi 0 \<le> 2 powi 1024" by (intro power_int_increasing) simp_all
  then show ?thesis by (simp only: huge_def power_int_0_right)
qed

lemma pow_less_huge: "n \<le> 1023 \<Longrightarrow> 2 ^ n < huge"
proof -
  assume "n \<le> 1023"
  then have "(2::real) powi int n < 2 powi 1024" by (intro power_int_strict_increasing) simp_all
  then show ?thesis by (simp only: huge_def power_int_of_nat)
qed

lemma tiny_le: "n \<le> 1074 \<Longrightarrow> tiny \<le> 1 / 2 ^ n"
proof -
  assume "n \<le> 1074"
  then have "(2::real) powi (- 1074) \<le> 2 powi (- int n)" by (intro power_int_increasing) simp_all
  then show ?thesis by (simp only: tiny_def powi_neg_nat)
qed

lemma tiny_huge: "tiny * huge = 1 / 2 ^ 50"
proof -
  have "(2::real) powi (- 1074 + 1024) = 2 powi (- 1074) * 2 powi 1024"
    by (rule power_int_add) simp
  moreover have "(- 1074 + 1024 :: int) = - int 50" by simp
  ultimately have "(2::real) powi (- 1074) * 2 powi 1024 = 2 powi (- int 50)" by (simp only:)
  then show ?thesis by (simp only: tiny_def huge_def powi_neg_nat)
qed

lemma fl_FinD: "fl x = Fin r \<Longrightarrow> r = rd x \<and> \<bar>r\<bar> < huge"
  by (auto simp add: fl_def signed_inf_def split: if_splits)

lemma fl_exact:
  assumes "rd x = x" and "\<bar>x\<bar> < huge"
  shows "fl x = Fin x"
  using assms by (simp add: fl_def)

lemma fl_of_nat:
  assumes "n \<le> 9007199254740992"
  shows "fl (real n) = Fin (real n)"
proof (rule fl_exact)
  show "rd (real n) = real n" using assms by (intro rd_of_nat) simp
  have "real n \<le> 2 ^ 53" using assms by simp
  also have "\<dots> < huge" by (rule pow_less_huge) simp
  finally show "\<bar>real n\<bar> < huge" by simp
qed

lemma fl_0 [simp]: "fl 0 = Fin 0"
  using fl_of_nat [of 0] by simp

lemma fl_1 [simp]: "fl 1 = Fin 1"
  using fl_of_nat [of 1] by simp

lemma fl_numeral [simp]:
  "numeral n \<le> (9007199254740992::nat) \<Longrightarrow> fl (numeral n) = Fin (numeral n)"
  using fl_of_nat [of "numeral n"] by simp

lemma fl_half [simp]: "fl (1 / 2) = Fin (1 / 2)"
proof (rule fl_exact)
  show "rd (1 / 2) = 1 / 2" by (rule rd_half)
  show "\<bar>1 / 2 :: real\<bar> < huge" using one_le_huge by simp
qed

lemma fl_ops_Fin:
  "fl_add (Fin a) (Fin b) = fl (a + b)"
  "fl_sub (Fin a) (Fin b) = fl (a - b)"
  "fl_mul (Fin a) (Fin b) = fl (a * b)"
  "b \<noteq> 0 \<Longrightarrow> fl_div (Fin a) (Fin b) = fl (a / b)"
  by (simp_all add: fl_add_def fl_sub_def fl_mul_def fl_div_def round_double_def js_sub_def)

lemma rd_abs_le: "\<bar>rd x\<bar> \<le> \<bar>x\<bar> + \<bar>x\<bar> / 2 ^ 53 + tiny / 2"
  using rd_err [of x] by linarith

lemma fl_small:
  assumes "rd x = r" and "\<bar>x\<bar> < 2 ^ 53"
  shows "fl x = Fin r"
proof -
  have t: "tiny \<le> 1" using tiny_le [of 0] by simp
  have "\<bar>x\<bar> / 2 ^ 53 < 1" using assms(2) by simp
  then have "\<bar>rd x\<bar> < 2 ^ 53 + 2" using rd_abs_le [of x] assms(2) t by linarith
  also have "\<dots> \<le> (2::real) ^ 54" by simp
  also have "\<dots> < huge" by (rule pow_less_huge) simp
  finally have "\<not> huge \<le> \<bar>rd x\<bar>" by simp
  then show ?thesis using assms(1) by (simp add: fl_def)
qed

text \<open>Evaluation of a rounded operation at a number between 1 and \<open>2^53\<close>, and at one below 1.\<close>

lemma fl_eval_ge1:
  assumes "2 ^ a \<le> \<bar>x\<bar>" and "\<bar>x\<bar> < 2 * 2 ^ a" and "a \<le> 52"
    and "\<bar>x * 2 ^ (52 - a) - of_int k\<bar> < 1 / 2"
  shows "fl x = Fin (of_int k / 2 ^ (52 - a))"
proof (rule fl_small)
  show "rd x = of_int k / 2 ^ (52 - a)" by (rule rd_eval_ge1 [OF assms])
  have "(2::real) ^ a \<le> 2 ^ 52" using assms(3) by (intro power_increasing) simp_all
  then show "\<bar>x\<bar> < 2 ^ 53" using assms(2) by simp
qed

lemma fl_eval_lt1:
  assumes "1 \<le> \<bar>x\<bar> * 2 ^ b" and "\<bar>x\<bar> * 2 ^ b < 2" and "b \<le> 1022"
    and "\<bar>x * 2 ^ (52 + b) - of_int k\<bar> < 1 / 2"
  shows "fl x = Fin (of_int k / 2 ^ (52 + b))"
proof (rule fl_small)
  show "rd x = of_int k / 2 ^ (52 + b)" by (rule rd_eval_lt1 [OF assms])
  have "(1::real) \<le> 2 ^ b" by simp
  then have "\<bar>x\<bar> * 1 \<le> \<bar>x\<bar> * 2 ^ b" by (intro mult_left_mono) simp_all
  then show "\<bar>x\<bar> < 2 ^ 53" using assms(2) by simp
qed

text \<open>A rounded operation with a finite result had finite operands.\<close>

lemma round_double_FinD:
  "round_double v = Fin r \<Longrightarrow> \<exists>x. v = Fin x \<and> r = rd x \<and> \<bar>r\<bar> < huge"
  by (cases v) (auto simp add: round_double_def dest: fl_FinD)

lemma js_add_FinD: "js_add a b = Fin z \<Longrightarrow> \<exists>x y. a = Fin x \<and> b = Fin y \<and> z = x + y"
  by (cases a; cases b) simp_all

lemma js_mul_FinD: "js_mul a b = Fin z \<Longrightarrow> \<exists>x y. a = Fin x \<and> b = Fin y \<and> z = x * y"
  by (cases a; cases b) (simp_all add: signed_inf_def split: if_splits)

lemma fl_add_FinD:
  assumes "fl_add a b = Fin r"
  shows "\<exists>x y. a = Fin x \<and> b = Fin y \<and> r = rd (x + y) \<and> \<bar>r\<bar> < huge"
proof -
  from assms obtain z where z: "js_add a b = Fin z" and r: "r = rd z" "\<bar>r\<bar> < huge"
    unfolding fl_add_def by (blast dest: round_double_FinD)
  from js_add_FinD [OF z] r show ?thesis by blast
qed

lemma fl_mul_FinD:
  assumes "fl_mul a b = Fin r"
  shows "\<exists>x y. a = Fin x \<and> b = Fin y \<and> r = rd (x * y) \<and> \<bar>r\<bar> < huge"
proof -
  from assms obtain z where z: "js_mul a b = Fin z" and r: "r = rd z" "\<bar>r\<bar> < huge"
    unfolding fl_mul_def by (blast dest: round_double_FinD)
  from js_mul_FinD [OF z] r show ?thesis by blast
qed

lemma fl_sub_FinD:
  assumes "fl_sub (Fin x) (Fin y) = Fin r"
  shows "r = rd (x - y)"
  using assms by (auto simp add: fl_ops_Fin dest: fl_FinD)

text \<open>The canvas scale \<open>Math.min(1, maxWidth / width)\<close> of a width that is not negative.\<close>

lemma canvas_scale:
  assumes "0 < m" and "0 \<le> W"
  shows "\<exists>sc. Math_min (Fin 1) (fl_div (Fin m) (Fin W)) = Fin sc \<and> 0 \<le> sc \<and> sc \<le> 1 \<and>
     (0 < W \<longrightarrow> sc \<le> rd (m / W))"
proof (cases "W = 0")
  case True
  then have "fl_div (Fin m) (Fin W) = PInf"
    using assms(1) by (simp add: fl_div_def round_double_def signed_inf_def)
  then show ?thesis using True by simp
next
  case False
  then have W: "0 < W" using assms(2) by simp
  then have q: "0 \<le> rd (m / W)" using assms(1) by (intro rd_nonneg) simp
  show ?thesis
  proof (cases "huge \<le> \<bar>rd (m / W)\<bar>")
    case True
    then have "fl_div (Fin m) (Fin W) = PInf"
      using W assms(1) by (simp add: fl_ops_Fin fl_def signed_inf_def)
    moreover have "1 \<le> rd (m / W)" using True q one_le_huge by linarith
    ultimately show ?thesis by simp
  next
    case False
    then have "fl_div (Fin m) (Fin W) = Fin (rd (m / W))"
      using W by (simp add: fl_ops_Fin fl_def)
    then show ?thesis using q by simp
  qed
qed

section \<open>Bounds on the rounding error\<close>

lemma rd_up: "0 \<le> x \<Longrightarrow> rd x \<le> x * (1 + 1 / 2 ^ 53) + tiny / 2"
proof -
  assume "0 \<le> x"
  then have "rd x \<le> x + x / 2 ^ 53 + tiny / 2" using rd_err [of x] by linarith
  also have "x + x / 2 ^ 53 = x * (1 + 1 / 2 ^ 53)" by (simp add: algebra_simps)
  finally show ?thesis .
qed

lemma rd_lo: "0 \<le> x \<Longrightarrow> x / 2 - tiny / 2 \<le> rd x"
proof -
  assume x: "0 \<le> x"
  then have "x - x / 2 ^ 53 - tiny / 2 \<le> rd x" using rd_err [of x] by linarith
  moreover have "x / 2 ^ 53 \<le> x / 2" using x by (intro divide_left_mono) simp_all
  ultimately show ?thesis by linarith
qed

lemma rd_rel:
  assumes "1 \<le> \<bar>x\<bar>"
  shows "\<bar>rd x - x\<bar> \<le> \<bar>x\<bar> / 2 ^ 53"
proof -
  define L where "L = \<lfloor>log 2 \<bar>x\<bar>\<rfloor>"
  have nz: "x \<noteq> 0" using assms by auto
  have lo: "2 powi L \<le> \<bar>x\<bar>" and up: "\<bar>x\<bar> < 2 powi (L + 1)"
    unfolding L_def by (rule binade [OF nz])+
  have "(2::real) powi 0 < 2 powi (L + 1)" using assms up by simp
  then have "0 < L + 1" by (rule power_int_less_cancel)
  then have L: "- 1022 \<le> L" by simp
  have "ulp x = 2 powi (L - 52)" by (rule ulp_eq [OF lo up L])
  also have "\<dots> = 2 powi L / 2 ^ 52" by (simp add: power_int_diff)
  also have "\<dots> \<le> \<bar>x\<bar> / 2 ^ 52" using lo by (simp add: divide_right_mono)
  finally show ?thesis using rd_err_ulp [of x] by simp
qed

lemma rd_nat_le: "rd (real j) \<le> real j * (1 + 1 / 2 ^ 53)"
proof (cases "j = 0")
  case True
  then show ?thesis by simp
next
  case False
  then have "1 \<le> \<bar>real j\<bar>" by simp
  then have "\<bar>rd (real j) - real j\<bar> \<le> \<bar>real j\<bar> / 2 ^ 53" by (rule rd_rel)
  moreover have "\<bar>real j\<bar> = real j" by simp
  ultimately have "rd (real j) \<le> real j + real j / 2 ^ 53" by linarith
  also have "\<dots> = real j * (1 + 1 / 2 ^ 53)" by (simp add: algebra_simps)
  finally show ?thesis .
qed

text \<open>
  The width of a row of cells and gaps after scaling: \<open>W\<close> is the width of the cells, \<open>j\<close> the
  number of gaps, \<open>sc\<close> the canvas scale.  When it is at least one pixel, it exceeds
  \<open>m + s * j\<close> by the rounding errors of its five operations at most.
\<close>

lemma row_bound:
  fixes W s m :: real
  assumes W: "0 \<le> W" and s: "0 < s" and m: "0 < m"
    and g1: "g1 = rd (real j)"
    and g: "g = rd (s * g1)"
    and A: "A = rd (W + g)" and Ah: "A < huge"
    and sc: "0 \<le> sc" "sc \<le> 1" "0 < W \<longrightarrow> sc \<le> rd (m / W)"
    and w: "w = rd (A * sc)" and w1: "1 \<le> w"
  shows "w \<le> (m + s * real j) * (1 + 1 / 2 ^ 40)"
proof -
  define a :: real where "a = 1 + 1 / 2 ^ 53"
  define t where "t = tiny / 2"
  define P where "P = s * real j"
  have a0: "0 \<le> a" by (simp add: a_def)
  have t0: "0 \<le> t" unfolding t_def using less_imp_le [OF tiny_pos] by simp
  have t1: "t \<le> 1 / 2 ^ 61" using tiny_le [of 60] by (simp add: t_def)
  have P0: "0 \<le> P" unfolding P_def using s by simp
  have g10: "0 \<le> g1" unfolding g1 by (rule rd_nonneg) simp
  have g1u: "g1 \<le> real j * a" unfolding g1 a_def by (rule rd_nat_le)
  have sg0: "0 \<le> s * g1" using s g10 by simp
  have "s * g1 \<le> s * (real j * a)" using g1u s by (intro mult_left_mono) simp_all
  then have sgu: "s * g1 \<le> P * a" by (simp add: P_def mult.assoc)
  have g0: "0 \<le> g" unfolding g by (rule rd_nonneg [OF sg0])
  have "g \<le> s * g1 * a + t" unfolding g a_def t_def by (rule rd_up [OF sg0])
  moreover have "s * g1 * a \<le> P * a * a" using sgu a0 by (rule mult_right_mono)
  ultimately have gu: "g \<le> P * a * a + t" by linarith
  define c where "c = W + g"
  have c0: "0 \<le> c" unfolding c_def using W g0 by simp
  have A0: "0 \<le> A" unfolding A c_def [symmetric] by (rule rd_nonneg [OF c0])
  have Au: "A \<le> c * a + t" unfolding A c_def [symmetric] a_def t_def by (rule rd_up [OF c0])
  have "c / 2 - tiny / 2 \<le> A" unfolding A c_def [symmetric] by (rule rd_lo [OF c0])
  moreover have "tiny \<le> huge" using tiny_le [of 0] one_le_huge by simp
  ultimately have "c \<le> 3 * huge" using Ah by linarith
  then have "W \<le> 3 * huge" using g0 by (simp add: c_def)
  then have "W * t \<le> 3 * huge * t" using t0 by (rule mult_right_mono)
  also have "\<dots> = 3 / 2 * (tiny * huge)" by (simp add: t_def)
  also have "\<dots> = 3 / 2 ^ 51" by (simp only: tiny_huge) simp
  finally have Wt: "W * t \<le> 3 / 2 ^ 51" .
  have gsc: "g * sc \<le> g" using mult_left_mono [OF sc(2) g0] by simp
  have ma0: "0 \<le> m * a" using m a0 by simp
  have csc: "c * sc \<le> m * a + 3 / 2 ^ 51 + g"
  proof (cases "0 < W")
    case True
    have q0: "0 \<le> m / W" using m True by simp
    have "sc \<le> rd (m / W)" using sc(3) True by blast
    also have "\<dots> \<le> m / W * a + t" unfolding a_def t_def by (rule rd_up [OF q0])
    finally have "W * sc \<le> W * (m / W * a + t)" using W by (intro mult_left_mono)
    also have "\<dots> = m * a + W * t" using True by (simp add: algebra_simps)
    finally have "W * sc \<le> m * a + 3 / 2 ^ 51" using Wt by linarith
    moreover have "c * sc = W * sc + g * sc" by (simp add: c_def algebra_simps)
    ultimately show ?thesis using gsc by linarith
  next
    case False
    then have "c = g" using W by (simp add: c_def)
    then show ?thesis using gsc ma0 by simp
  qed
  have Asc0: "0 \<le> A * sc" using A0 sc(1) by simp
  have "A * sc \<le> (c * a + t) * sc" using Au sc(1) by (rule mult_right_mono)
  also have "\<dots> = c * sc * a + t * sc" by (simp add: algebra_simps)
  finally have "A * sc \<le> c * sc * a + t * sc" .
  moreover have "c * sc * a \<le> (m * a + 3 / 2 ^ 51 + g) * a" using csc a0 by (rule mult_right_mono)
  moreover have "t * sc \<le> t" using mult_left_mono [OF sc(2) t0] by simp
  ultimately have Ascu: "A * sc \<le> (m * a + 3 / 2 ^ 51 + g) * a + t" by linarith
  have "(m * a + 3 / 2 ^ 51 + g) * a \<le> (m * a + 3 / 2 ^ 51 + (P * a * a + t)) * a"
    using gu a0 by (intro mult_right_mono) simp_all
  then have Ascu': "A * sc \<le> (m * a + 3 / 2 ^ 51 + (P * a * a + t)) * a + t" using Ascu by linarith
  have "w \<le> A * sc * a + t" unfolding w a_def t_def by (rule rd_up [OF Asc0])
  moreover have "A * sc * a \<le> ((m * a + 3 / 2 ^ 51 + (P * a * a + t)) * a + t) * a"
    using Ascu' a0 by (rule mult_right_mono)
  ultimately have "w \<le> ((m * a + 3 / 2 ^ 51 + (P * a * a + t)) * a + t) * a + t" by linarith
  then have "w \<le> (m + P) * (1 + 1 / 2 ^ 40)"
    using w1 t0 t1 P0 m unfolding a_def by (simp add: algebra_simps)
  then show ?thesis by (simp add: P_def)
qed

section \<open>Arithmetic of the finite case\<close>

lemma num_simps [simp]: "num n = Fin (real n)"
  by (simp add: num_def)

lemma real_pos_neq0: "0 < (n::nat) \<Longrightarrow> real n \<noteq> 0"
  by arith

text \<open>A sum of integers is exact in doubles as long as it stays below \<open>2^53\<close>.\<close>

lemma foldl_fl_add_exact:
  "a + sum_list (map f xs) \<le> 9007199254740992 \<Longrightarrow>
   foldl (\<lambda>sum i. fl_add sum (Fin (real (f i)))) (Fin (real a)) xs
     = Fin (real (a + sum_list (map f xs)))"
proof (induction xs arbitrary: a)
  case Nil
  then show ?case by simp
next
  case (Cons x xs)
  have le: "a + f x \<le> 9007199254740992" using Cons.prems by simp
  have "fl (real a + real (f x)) = Fin (real (a + f x))"
    using fl_of_nat [OF le] by simp
  then have "fl_add (Fin (real a)) (Fin (real (f x))) = Fin (real (a + f x))"
    by (simp only: fl_ops_Fin)
  moreover have "a + f x + sum_list (map f xs) \<le> 9007199254740992"
    using Cons.prems by (simp add: add.assoc)
  ultimately show ?case using Cons.IH [of "a + f x"] by (simp add: add.assoc del: of_nat_add)
qed

lemma totalWidth_eq:
  "sum_list (map width images) \<le> 9007199254740992 \<Longrightarrow>
   totalWidth images = Fin (real (sum_list (map width images)))"
  using foldl_fl_add_exact [of 0 width images] by (simp add: totalWidth_def)

lemma totalHeight_eq:
  "sum_list (map height images) \<le> 9007199254740992 \<Longrightarrow>
   totalHeight images = Fin (real (sum_list (map height images)))"
  using foldl_fl_add_exact [of 0 height images] by (simp add: totalHeight_def)

lemma foldl_fl_add_FinD:
  "foldl (\<lambda>sum i. fl_add sum (Fin (real (f i)))) v xs = Fin W \<Longrightarrow>
   \<exists>a. v = Fin a \<and> (0 \<le> a \<longrightarrow> 0 \<le> W)"
proof (induction xs arbitrary: v)
  case Nil
  then show ?case by simp
next
  case (Cons x xs)
  from Cons.IH [of "fl_add v (Fin (real (f x)))"] Cons.prems
  obtain b where b: "fl_add v (Fin (real (f x))) = Fin b" and bW: "0 \<le> b \<longrightarrow> 0 \<le> W"
    by auto
  from fl_add_FinD [OF b] obtain a where a: "v = Fin a" and ba: "b = rd (a + real (f x))"
    by auto
  have "0 \<le> a \<longrightarrow> 0 \<le> b" unfolding ba by (auto intro: rd_nonneg)
  then show ?case using a bW by blast
qed

lemma totalWidth_nonneg: "totalWidth images = Fin W \<Longrightarrow> 0 \<le> W"
  using foldl_fl_add_FinD [of width "Fin 0" images W] by (simp add: totalWidth_def)

lemma foldl_max_Fin:
  "foldl Math_max (Fin (real a)) (map (\<lambda>i. Fin (real (f i))) xs)
     = Fin (real (Max (insert a (f ` set xs))))"
proof (induction xs arbitrary: a)
  case Nil
  then show ?case by simp
next
  case (Cons x xs)
  have m: "Max (insert (max a (f x)) (f ` set xs)) = Max (insert a (insert (f x) (f ` set xs)))"
    by (cases "xs = []") (simp_all add: max.assoc)
  have "foldl Math_max (Fin (real a)) (map (\<lambda>i. Fin (real (f i))) (x # xs))
      = foldl Math_max (Fin (real (max a (f x)))) (map (\<lambda>i. Fin (real (f i))) xs)"
    by (simp add: of_nat_max)
  also have "\<dots> = Fin (real (Max (insert (max a (f x)) (f ` set xs))))"
    by (rule Cons.IH)
  finally show ?case using m by simp
qed

lemma Math_max_list_eq:
  "xs \<noteq> [] \<Longrightarrow>
   Math_max_list (map (\<lambda>i. Fin (real (f i))) xs) = Fin (real (Max (f ` set xs)))"
  by (cases xs) (simp_all add: Math_max_list_def foldl_max_Fin)

lemma maxImgWidth_eq:
  "images \<noteq> [] \<Longrightarrow> maxImgWidth images = Fin (real (Max (width ` set images)))"
  by (simp add: maxImgWidth_def Math_max_list_eq)

lemma maxImgHeight_eq:
  "images \<noteq> [] \<Longrightarrow> maxImgHeight images = Fin (real (Max (height ` set images)))"
  by (simp add: maxImgHeight_def Math_max_list_eq)

lemma canvas_attr_in_range:
  "0 \<le> k \<Longrightarrow> k \<le> 2147483647 \<Longrightarrow> canvas_attr d (Fin (of_int k)) = nat k"
  by (simp add: canvas_attr_def)

section \<open>The successful call\<close>

lemma those_length: "those xs = Some ys \<Longrightarrow> length ys = length xs"
  by (induction xs arbitrary: ys) (auto split: option.splits)

text \<open>
  The result of a call whose images load and which gets its drawing context, unless the
  canvas cannot be encoded.
\<close>

lemma mergeImages_success:
  assumes "2 \<le> length imageFiles"
    and "those (map (loadImageFromFile e) imageFiles) = Some images"
    and "getContext e" and "mergeImages e imageFiles opts \<noteq> Inl FailedToCreateBlob"
  shows "mergeImages e imageFiles opts =
     Inr \<lparr>cv_width = canvas_attr 300 (Math_floor (fst (canvasDims (eff_layout opts) images
              (eff_spacing opts) (eff_maxWidth opts)))),
          cv_height = canvas_attr 150 (Math_floor (snd (canvasDims (eff_layout opts) images
              (eff_spacing opts) (eff_maxWidth opts)))),
          fillStyle = eff_backgroundColor opts,
          drawn = drawImages (eff_layout opts)
            (canvas_attr 300 (Math_floor (fst (canvasDims (eff_layout opts) images
              (eff_spacing opts) (eff_maxWidth opts)))))
            (canvas_attr 150 (Math_floor (snd (canvasDims (eff_layout opts) images
              (eff_spacing opts) (eff_maxWidth opts)))))
            images (eff_spacing opts)\<rparr>"
proof -
  have n: "length imageFiles \<noteq> 0" "length imageFiles \<noteq> 1" using assms(1) by arith+
  obtain x1 x2 where
    d: "canvasDims (eff_layout opts) images (eff_spacing opts) (eff_maxWidth opts) = (x1, x2)"
    by (cases "canvasDims (eff_layout opts) images (eff_spacing opts) (eff_maxWidth opts)")
  show ?thesis using n assms(2-4)
    by (simp add: mergeImages_def Let_def d split: if_splits)
qed

text \<open>A call returns a canvas only if it has pixels.\<close>

lemma mergeImages_Inr_pos:
  "mergeImages e imageFiles opts = Inr c \<Longrightarrow> 0 < cv_width c \<and> 0 < cv_height c"
  by (auto simp add: mergeImages_def Let_def split: prod.splits if_splits option.splits)

text \<open>In a browser in which every step succeeds, a canvas with pixels is returned.\<close>

lemma mergeImages_browser_ok:
  assumes "2 \<le> length images"
    and "canvasDims (eff_layout opts) images (eff_spacing opts) (eff_maxWidth opts) = (Fin w, Fin h)"
    and "1 \<le> w" and "w < 2147483648" and "1 \<le> h" and "h < 2147483648"
  shows "mergeImages browser_ok images opts \<noteq> Inl FailedToCreateBlob"
proof -
  have n: "length images \<noteq> 0" "length images \<noteq> 1" using assms(1) by arith+
  have l: "those (map (loadImageFromFile browser_ok) images) = Some images"
    by (induction images) (simp_all add: browser_ok_def)
  have fw: "1 \<le> \<lfloor>w\<rfloor>" "\<lfloor>w\<rfloor> \<le> 2147483647" using assms(3,4) by (simp_all add: le_floor_iff floor_less_iff)
  have fh: "1 \<le> \<lfloor>h\<rfloor>" "\<lfloor>h\<rfloor> \<le> 2147483647" using assms(5,6) by (simp_all add: le_floor_iff floor_less_iff)
  have "canvas_attr 300 (Fin (of_int \<lfloor>w\<rfloor>)) = nat \<lfloor>w\<rfloor>"
    using fw by (intro canvas_attr_in_range) simp_all
  moreover have "canvas_attr 150 (Fin (of_int \<lfloor>h\<rfloor>)) = nat \<lfloor>h\<rfloor>"
    using fh by (intro canvas_attr_in_range) simp_all
  ultimately show ?thesis using n l assms(2) fw fh
    by (simp add: mergeImages_def Let_def browser_ok_def)
qed

section \<open>The grid\<close>

lemma grid_cols_unique:
  assumes "0 < c" and "(c - 1) * (c - 1) < n" and "n \<le> c * c"
  shows "grid_cols n = c"
proof -
  have up: "sqrt (real n) \<le> real c"
  proof -
    have "real n \<le> (real c)\<^sup>2" using assms(3)
      by (metis of_nat_le_iff of_nat_mult power2_eq_square)
    then show ?thesis by (simp add: real_le_lsqrt)
  qed
  have lo: "real c - 1 < sqrt (real n)"
  proof -
    have "(real (c - 1))\<^sup>2 < real n" using assms(2)
      by (metis of_nat_less_iff of_nat_mult power2_eq_square)
    then have "real (c - 1) < sqrt (real n)"
      by (simp add: real_less_rsqrt)
    then show ?thesis using assms(1) by (simp add: of_nat_diff)
  qed
  have "\<lceil>sqrt (real n)\<rceil> = int c"
    using up lo by (simp add: ceiling_unique)
  then show ?thesis by (simp add: grid_cols_def)
qed

lemma grid_cols_pos: "0 < n \<Longrightarrow> 0 < grid_cols n"
  by (simp add: grid_cols_def)

lemma grid_rows_eq:
  "0 < n \<Longrightarrow> grid_rows n = Fin (of_int \<lceil>real n / real (grid_cols n)\<rceil>)"
  using grid_cols_pos [of n] by (simp add: grid_rows_def)

section \<open>The drawing loops\<close>

lemma draw_horizontal_length [simp]:
  "length (draw_horizontal sc ch spc x images) = length images"
  by (induction images arbitrary: x) (simp_all add: Let_def)

lemma draw_vertical_length [simp]:
  "length (draw_vertical sc cw spc y images) = length images"
  by (induction images arbitrary: y) (simp_all add: Let_def)

lemma draw_grid_length [simp]:
  "length (draw_grid sc cols mw mh spc k images) = length images"
  by (induction images arbitrary: k) (simp_all add: Let_def)

lemma draw_horizontal_nth:
  "i < length images \<Longrightarrow>
   draw_horizontal (Fin d) (Fin ch) (Fin s) (Fin x) images ! i =
     \<lparr>img = images ! i,
      pos_x = Fin (x + (\<Sum>j<i. (real (width (images ! j)) * d + s))),
      pos_y = Fin ((ch - real (height (images ! i)) * d) / 2),
      scaledWidth = Fin (real (width (images ! i)) * d),
      scaledHeight = Fin (real (height (images ! i)) * d)\<rparr>"
proof (induction images arbitrary: x i)
  case Nil
  then show ?case by simp
next
  case (Cons a images)
  show ?case
  proof (cases i)
    case 0
    then show ?thesis by (simp add: Let_def js_sub_def)
  next
    case (Suc k)
    then have k: "k < length images" using Cons.prems by simp
    show ?thesis
      using Cons.IH [OF k, of "x + (real (width a) * d + s)"] Suc
      by (simp add: Let_def sum.lessThan_Suc_shift add.assoc del: sum.lessThan_Suc)
  qed
qed


lemma floor_index_div:
  "0 < c \<Longrightarrow> Math_floor (js_div (Fin (real i)) (Fin (real c))) = Fin (real (i div c))"
  by (simp add: floor_divide_of_nat_eq)

lemma draw_grid_nth:
  "0 < cols \<Longrightarrow> i < length images \<Longrightarrow>
   draw_grid sc cols mw mh spc k images ! i =
     \<lparr>img = images ! i,
      pos_x = js_mul (Fin (real ((k + i) mod cols))) (js_add (js_mul mw sc) spc),
      pos_y = js_mul (Fin (real ((k + i) div cols))) (js_add (js_mul mh sc) spc),
      scaledWidth = js_mul (Fin (real (width (images ! i)))) sc,
      scaledHeight = js_mul (Fin (real (height (images ! i)))) sc\<rparr>"
proof (induction images arbitrary: k i)
  case Nil
  then show ?case by simp
next
  case (Cons a images)
  show ?case
  proof (cases i)
    case 0
    then show ?thesis using Cons.prems(1)
      by (simp add: Let_def js_rem_def floor_index_div del: Math_floor.simps js_div.simps)
  next
    case (Suc j)
    then have j: "j < length images" using Cons.prems by simp
    show ?thesis
      using Cons.IH [OF Cons.prems(1) j, of "Suc k"] Suc
      by (simp add: Let_def)
  qed
qed

lemma drawImages_horizontal:
  assumes "maxImgHeight images = Fin H" and "H \<noteq> 0"
  shows "drawImages Horizontal cw ch images (Fin s) =
     draw_horizontal (Fin (real ch / H)) (Fin (real ch)) (Fin s) (Fin 0) images"
  using assms by (simp add: drawImages_def Let_def)


lemma grid_cols_2: "grid_cols 2 = 2" by (rule grid_cols_unique) simp_all

lemma grid_cols_4: "grid_cols 4 = 2" by (rule grid_cols_unique) simp_all

lemma grid_cols_5: "grid_cols 5 = 3" by (rule grid_cols_unique) simp_all

lemma grid_cols_Suc_Suc_0: "grid_cols (Suc (Suc 0)) = 2"
  using grid_cols_2 by (simp add: numeral_2_eq_2)

lemma drawImages_grid:
  assumes "images \<noteq> []"
  shows "drawImages Grid cw ch images spc =
     draw_grid
       (js_div (Fin (real cw))
          (js_add (js_mul (maxImgWidth images) (Fin (real (grid_cols (length images)))))
             (js_mul spc (Fin (real (grid_cols (length images)) - 1)))))
       (grid_cols (length images)) (maxImgWidth images) (maxImgHeight images) spc 0 images"
  by (simp add: drawImages_def Let_def js_sub_def)

lemma canvasDims_grid:
  assumes "images \<noteq> []"
  shows "canvasDims Grid images spc maxW =
     (let cols = Fin (real (grid_cols (length images)));
          rows = Fin (of_int \<lceil>real (length images) / real (grid_cols (length images))\<rceil>);
          scale = Math_min (Fin 1) (fl_div maxW (fl_mul (maxImgWidth images) cols))
      in (fl_mul (fl_add (fl_mul (maxImgWidth images) cols)
                   (fl_mul spc (fl_sub cols (Fin 1)))) scale,
          fl_mul (fl_add (fl_mul (maxImgHeight images) rows)
                   (fl_mul spc (fl_sub rows (Fin 1)))) scale))"
  using assms by (simp add: canvasDims_def Let_def grid_rows_eq)

section \<open>The scenarios\<close>

lemma browser_ok_loads: "those (map (loadImageFromFile browser_ok) xs) = Some xs"
  by (induction xs) (simp_all add: browser_ok_def)

lemma browser_ok_simps [simp]: "getContext browser_ok" "toBlob browser_ok"
  by (simp_all add: browser_ok_def)

lemma merge_options_simps [simp]:
  "eff_layout (merge_options lay s m) = lay"
  "s \<noteq> 0 \<Longrightarrow> eff_spacing (merge_options lay s m) = Fin s"
  "m \<noteq> 0 \<Longrightarrow> eff_maxWidth (merge_options lay s m) = Fin m"
  "eff_backgroundColor (merge_options lay s m) = ''#ffffff''"
  by (simp_all add: merge_options_def eff_layout_def eff_spacing_def eff_maxWidth_def
      eff_backgroundColor_def or_default_def truthy_def)

lemma horizontal_scenario_eval:
  "mergeImages browser_ok two_images (merge_options Horizontal 10 1200) = Inr horizontal_scenario"
  by (simp add: mergeImages_def two_images_def browser_ok_def merge_options_def eff_layout_def
      eff_spacing_def eff_maxWidth_def eff_backgroundColor_def or_default_def truthy_def Let_def
      canvas_attr_def canvasDims_def drawImages_def totalWidth_def maxImgHeight_def
      Math_max_list_def js_sub_def fl_ops_Fin horizontal_scenario_def)

lemma vertical_scenario_eval:
  "mergeImages browser_ok two_images (merge_options Vertical 10 1200) = Inr vertical_scenario"
  by (simp add: mergeImages_def two_images_def browser_ok_def merge_options_def eff_layout_def
      eff_spacing_def eff_maxWidth_def eff_backgroundColor_def or_default_def truthy_def Let_def
      canvas_attr_def canvasDims_def drawImages_def totalHeight_def maxImgWidth_def
      Math_max_list_def js_sub_def fl_ops_Fin vertical_scenario_def)

lemma grid_scenario_eval:
  "mergeImages browser_ok two_images (merge_options Grid 10 1200) = Inr grid_scenario"
  by (simp add: mergeImages_def two_images_def browser_ok_def merge_options_def eff_layout_def
      eff_spacing_def eff_maxWidth_def eff_backgroundColor_def or_default_def truthy_def Let_def
      canvas_attr_def canvasDims_def drawImages_def maxImgWidth_def maxImgHeight_def
      Math_max_list_def js_sub_def fl_ops_Fin grid_scenario_def grid_cols_Suc_Suc_0 grid_rows_def js_rem_def)

lemma grid_scale_Fin:
  assumes "maxImgWidth images = Fin W" and "W * cols + s * (cols - 1) \<noteq> 0"
  shows "js_div (Fin cw) (js_add (js_mul (maxImgWidth images) (Fin cols)) (js_mul (Fin s) (Fin (cols - 1))))
    = Fin (cw / (W * cols + s * (cols - 1)))"
  using assms by simp

lemma wide_scenario_eval:
  "mergeImages browser_ok wide_images (merge_options Horizontal 100 1200) = Inr wide_scenario"
  by (simp add: mergeImages_def wide_images_def browser_ok_def merge_options_def eff_layout_def
      eff_spacing_def eff_maxWidth_def eff_backgroundColor_def or_default_def truthy_def Let_def
      canvas_attr_def canvasDims_def drawImages_def totalWidth_def maxImgHeight_def
      Math_max_list_def js_sub_def fl_ops_Fin wide_scenario_def)

section \<open>Bounds\<close>

lemma canvas_attr_le:
  assumes "0 \<le> r" and "d \<le> 2147483647"
  shows "real (canvas_attr d (Fin r)) \<le> r"
proof -
  define u where "u = \<lfloor>r\<rfloor> mod 4294967296"
  have f: "0 \<le> \<lfloor>r\<rfloor>" using assms(1) by simp
  have ule: "u \<le> \<lfloor>r\<rfloor>" unfolding u_def using f by (rule zmod_le_nonneg_dividend)
  have u0: "0 \<le> u" unfolding u_def by simp
  have fr: "real_of_int \<lfloor>r\<rfloor> \<le> r" by (rule of_int_floor_le)
  show ?thesis
  proof (cases "u \<le> 2147483647")
    case True
    then have "canvas_attr d (Fin r) = nat u"
      using assms(1) by (simp add: canvas_attr_def u_def)
    then have "real (canvas_attr d (Fin r)) = real_of_int u" using u0 by simp
    also have "\<dots> \<le> real_of_int \<lfloor>r\<rfloor>" using ule by linarith
    finally show ?thesis using fr by linarith
  next
    case False
    then have "canvas_attr d (Fin r) = d"
      using assms(1) by (simp add: canvas_attr_def u_def)
    moreover have "real d \<le> real_of_int u" using False assms(2) by linarith
    moreover have "real_of_int u \<le> real_of_int \<lfloor>r\<rfloor>" using ule by linarith
    ultimately show ?thesis using fr by linarith
  qed
qed

lemma canvas_attr_floor_le:
  assumes "0 \<le> r" and "d \<le> 2147483647"
  shows "real (canvas_attr d (Math_floor (Fin r))) \<le> r"
proof -
  have "0 \<le> real_of_int \<lfloor>r\<rfloor>" using assms(1) by simp
  then have a: "real (canvas_attr d (Fin (real_of_int \<lfloor>r\<rfloor>))) \<le> real_of_int \<lfloor>r\<rfloor>"
    using assms(2) by (rule canvas_attr_le)
  have b: "real_of_int \<lfloor>r\<rfloor> \<le> r" by (rule of_int_floor_le)
  have "Math_floor (Fin r) = Fin (real_of_int \<lfloor>r\<rfloor>)" by simp
  then show ?thesis using order_trans [OF a b] by simp
qed

lemma canvas_attr_floor_in_range:
  assumes "0 \<le> w" and "w < 2147483648"
  shows "int (canvas_attr d (Fin (of_int \<lfloor>w\<rfloor>))) = \<lfloor>w\<rfloor>"
proof -
  have "0 \<le> \<lfloor>w\<rfloor>" using assms(1) by simp
  moreover have "\<lfloor>w\<rfloor> \<le> 2147483647" using assms(2) by (simp add: floor_less_iff)
  ultimately show ?thesis using canvas_attr_in_range [of "\<lfloor>w\<rfloor>" d] by simp
qed

lemma canvas_attr_Fin:
  assumes "canvas_attr d (Math_floor v) \<noteq> 0"
  shows "\<exists>r. v = Fin r"
proof (cases v)
  case (Fin x)
  then show ?thesis by blast
next
  case PInf
  then show ?thesis using assms by (simp add: canvas_attr_def)
next
  case NInf
  then show ?thesis using assms by (simp add: canvas_attr_def)
next
  case NaN
  then show ?thesis using assms by (simp add: canvas_attr_def)
qed

text \<open>
  The width of a row of \<open>k\<close> cells of the total width \<open>W\<close> with \<open>k - 1\<close> gaps, as the horizontal
  and the grid branch compute it.
\<close>

lemma row_width_bound:
  assumes e: "fl_mul (fl_add (Fin W) (fl_mul (Fin s) (fl_sub (Fin (real k)) (Fin 1))))
             (Math_min (Fin 1) (fl_div (Fin m) (Fin W))) = Fin w"
    and W: "0 \<le> W" and s: "0 < s" and m: "0 < m" and k: "1 \<le> k"
  shows "0 \<le> w \<and> (1 \<le> w \<longrightarrow> w \<le> (m + s * (real k - 1)) * (1 + 1 / 2 ^ 40))"
proof -
  obtain sc where sc: "Math_min (Fin 1) (fl_div (Fin m) (Fin W)) = Fin sc"
      and sc0: "0 \<le> sc" and sc1: "sc \<le> 1" and scq: "0 < W \<longrightarrow> sc \<le> rd (m / W)"
    using canvas_scale [OF m W] by blast
  from fl_mul_FinD [OF e [unfolded sc]] obtain A where
      A: "fl_add (Fin W) (fl_mul (Fin s) (fl_sub (Fin (real k)) (Fin 1))) = Fin A"
      and w: "w = rd (A * sc)"
    by auto
  from fl_add_FinD [OF A] obtain g where
      g: "fl_mul (Fin s) (fl_sub (Fin (real k)) (Fin 1)) = Fin g"
      and Ag: "A = rd (W + g)" and Ah: "\<bar>A\<bar> < huge"
    by auto
  from fl_mul_FinD [OF g] obtain g1 where
      g1: "fl_sub (Fin (real k)) (Fin 1) = Fin g1" and gg: "g = rd (s * g1)"
    by auto
  have km: "real k - 1 = real (k - 1)" using k by (simp add: of_nat_diff)
  have g1r: "g1 = rd (real (k - 1))" using fl_sub_FinD [OF g1] unfolding km .
  have g10: "0 \<le> g1" unfolding g1r by (rule rd_nonneg) simp
  have g0: "0 \<le> g" unfolding gg using s g10 by (intro rd_nonneg) simp
  have A0: "0 \<le> A" unfolding Ag using W g0 by (intro rd_nonneg) simp
  have w0: "0 \<le> w" unfolding w using A0 sc0 by (intro rd_nonneg) simp
  have Ah': "A < huge" using Ah by simp
  have "w \<le> (m + s * real (k - 1)) * (1 + 1 / 2 ^ 40)" if "1 \<le> w"
    by (rule row_bound [OF W s m g1r gg Ag Ah' sc0 sc1 scq w that])
  then show ?thesis unfolding km using w0 by blast
qed

lemma dims_horizontal_le:
  assumes d: "canvasDims Horizontal images (Fin s) (Fin m) = (Fin w, h)"
    and ne: "images \<noteq> []" and s: "0 < s" and m: "0 < m"
  shows "0 \<le> w \<and> (1 \<le> w \<longrightarrow> w \<le> (m + s * (real (length images) - 1)) * (1 + 1 / 2 ^ 40))"
proof -
  from d have e: "fl_mul (fl_add (totalWidth images)
                   (fl_mul (Fin s) (fl_sub (Fin (real (length images))) (Fin 1))))
             (Math_min (Fin 1) (fl_div (Fin m) (totalWidth images))) = Fin w"
    by (simp add: canvasDims_def Let_def)
  from fl_mul_FinD [OF e] obtain A where
      "fl_add (totalWidth images) (fl_mul (Fin s) (fl_sub (Fin (real (length images))) (Fin 1)))
         = Fin A"
    by auto
  from fl_add_FinD [OF this] obtain W where T: "totalWidth images = Fin W" by auto
  have W: "0 \<le> W" by (rule totalWidth_nonneg [OF T])
  have k: "1 \<le> length images" using ne by (cases images) simp_all
  show ?thesis by (rule row_width_bound [OF e [unfolded T] W s m k])
qed

lemma dims_grid_le:
  assumes d: "canvasDims Grid images (Fin s) (Fin m) = (Fin w, h)"
    and ne: "images \<noteq> []" and s: "0 < s" and m: "0 < m"
  shows "0 \<le> w \<and>
     (1 \<le> w \<longrightarrow> w \<le> (m + s * (real (grid_cols (length images)) - 1)) * (1 + 1 / 2 ^ 40))"
proof -
  define cols where "cols = grid_cols (length images)"
  define M where "M = real (Max (width ` set images))"
  have mw: "maxImgWidth images = Fin M" unfolding M_def by (rule maxImgWidth_eq [OF ne])
  from d have e: "fl_mul (fl_add (fl_mul (Fin M) (Fin (real cols)))
                   (fl_mul (Fin s) (fl_sub (Fin (real cols)) (Fin 1))))
             (Math_min (Fin 1) (fl_div (Fin m) (fl_mul (Fin M) (Fin (real cols))))) = Fin w"
    by (simp add: canvasDims_grid [OF ne] Let_def mw cols_def)
  from fl_mul_FinD [OF e] obtain A where
      "fl_add (fl_mul (Fin M) (Fin (real cols)))
         (fl_mul (Fin s) (fl_sub (Fin (real cols)) (Fin 1))) = Fin A"
    by auto
  from fl_add_FinD [OF this] obtain W where T: "fl_mul (Fin M) (Fin (real cols)) = Fin W" by auto
  from fl_mul_FinD [OF T] have "W = rd (M * real cols)" by auto
  moreover have "0 \<le> M * real cols" by (simp add: M_def)
  ultimately have W: "0 \<le> W" by (simp add: rd_nonneg)
  have "0 < length images" using ne by simp
  then have k: "1 \<le> cols" unfolding cols_def using grid_cols_pos [of "length images"] by simp
  show ?thesis unfolding cols_def [symmetric] by (rule row_width_bound [OF e [unfolded T] W s m k])
qed

lemma dims_vertical_le:
  assumes d: "canvasDims Vertical images (Fin s) (Fin m) = (Fin w, h)"
    and ne: "images \<noteq> []" and m: "0 < m"
    and ul: "\<forall>i\<in>set images. unsigned_long (width i)"
  shows "0 \<le> w \<and> (1 \<le> w \<longrightarrow> w \<le> m * (1 + 1 / 2 ^ 40))"
proof -
  define M where "M = Max (width ` set images)"
  have mw: "maxImgWidth images = Fin (real M)" unfolding M_def by (rule maxImgWidth_eq [OF ne])
  have "M \<in> width ` set images" unfolding M_def using ne by (intro Max_in) simp_all
  then have Mu: "M < 4294967296" using ul by (auto simp add: unsigned_long_def)
  from d have e: "fl_mul (Fin (real M)) (Math_min (Fin 1) (fl_div (Fin m) (Fin (real M)))) = Fin w"
    by (simp add: canvasDims_def Let_def mw)
  have M0: "0 \<le> real M" by simp
  obtain sc where sc: "Math_min (Fin 1) (fl_div (Fin m) (Fin (real M))) = Fin sc"
      and sc0: "0 \<le> sc" and sc1: "sc \<le> 1" and scq: "0 < real M \<longrightarrow> sc \<le> rd (m / real M)"
    using canvas_scale [OF m M0] by blast
  from fl_mul_FinD [OF e [unfolded sc]] have w: "w = rd (real M * sc)" by auto
  have w0: "0 \<le> w" unfolding w using sc0 by (intro rd_nonneg) simp
  have g1: "(0::real) = rd (real 0)" by simp
  have g: "(0::real) = rd (1 * 0)" by simp
  have "rd (real M) = real M" using Mu by (intro rd_of_nat) simp
  then have A: "real M = rd (real M + 0)" by simp
  have "real M < 2 ^ 53" using Mu by simp
  also have "\<dots> < huge" by (rule pow_less_huge) simp
  finally have Ah: "real M < huge" .
  have "w \<le> (m + 1 * real 0) * (1 + 1 / 2 ^ 40)" if "1 \<le> w"
    by (rule row_bound [OF M0 _ m g1 g A Ah sc0 sc1 scq w that]) simp
  then show ?thesis using w0 by simp
qed

text \<open>The canvas sizes of the images whose scaled size is nearly a whole number.\<close>

lemma near_horizontal_fl:
  "fl (1200 / 1392) = Fin (7764826943742234 / 2 ^ 53)"
  "fl (1402 * (7764826943742234 / 2 ^ 53)) = Fin (5315570007386041 / 2 ^ 42)"
  "fl (145 * (7764826943742234 / 2 ^ 53)) = Fin (8796093022207999 / 2 ^ 46)"
  using fl_eval_lt1 [of "1200 / 1392" 1 7764826943742234]
    fl_eval_ge1 [of 10 "1402 * (7764826943742234 / 2 ^ 53)" 5315570007386041]
    fl_eval_ge1 [of 6 "145 * (7764826943742234 / 2 ^ 53)" 8796093022207999]
  by simp_all

lemma near_vertical_fl:
  "fl (1200 / 2191) = Fin (4933199044130164 / 2 ^ 53)"
  "fl (2191 * (4933199044130164 / 2 ^ 53)) = Fin (5277655813324799 / 2 ^ 42)"
  "fl (30 * (4933199044130164 / 2 ^ 53)) = Fin (4624874103872029 / 2 ^ 48)"
  using fl_eval_lt1 [of "1200 / 2191" 1 4933199044130164]
    fl_eval_ge1 [of 10 "2191 * (4933199044130164 / 2 ^ 53)" 5277655813324799]
    fl_eval_ge1 [of 4 "30 * (4933199044130164 / 2 ^ 53)" 4624874103872029]
  by simp_all

lemma near_grid_fl:
  "fl (1920 / 3520) = Fin (4913017775313268 / 2 ^ 53)"
  "fl (3542 * (4913017775313268 / 2 ^ 53)) = Fin (8497025859452927 / 2 ^ 42)"
  "fl (100 * (4913017775313268 / 2 ^ 53)) = Fin (7676590273926981 / 2 ^ 47)"
  using fl_eval_lt1 [of "1920 / 3520" 1 4913017775313268]
    fl_eval_ge1 [of 10 "3542 * (4913017775313268 / 2 ^ 53)" 8497025859452927]
    fl_eval_ge1 [of 5 "100 * (4913017775313268 / 2 ^ 53)" 7676590273926981]
  by simp_all

lemma near_horizontal_dims:
  "canvasDims Horizontal near_images_horizontal (Fin 10) (Fin 1200)
     = (Fin (5315570007386041 / 2 ^ 42), Fin (8796093022207999 / 2 ^ 46))"
  using near_horizontal_fl
  by (simp add: canvasDims_def Let_def near_images_horizontal_def totalWidth_def
      maxImgHeight_def Math_max_list_def fl_ops_Fin)

lemma near_vertical_dims:
  "canvasDims Vertical near_images_vertical (Fin 10) (Fin 1200)
     = (Fin (5277655813324799 / 2 ^ 42), Fin (4624874103872029 / 2 ^ 48))"
  using near_vertical_fl
  by (simp add: canvasDims_def Let_def near_images_vertical_def totalHeight_def
      maxImgWidth_def Math_max_list_def fl_ops_Fin)

lemma near_grid_dims:
  "canvasDims Grid near_images_grid (Fin 22) (Fin 1920)
     = (Fin (8497025859452927 / 2 ^ 42), Fin (7676590273926981 / 2 ^ 47))"
  using near_grid_fl
  by (simp add: canvasDims_def Let_def near_images_grid_def grid_rows_def
      maxImgWidth_def maxImgHeight_def Math_max_list_def fl_ops_Fin grid_cols_Suc_Suc_0)

section \<open>Disjoint rectangles\<close>



lemma rect_Fin [simp]:
  "rect \<lparr>img = im, pos_x = Fin x, pos_y = Fin y, scaledWidth = Fin w, scaledHeight = Fin h\<rparr>
     = Some (x, y, w, h)"
  by (simp add: rect_def)





















lemma drawImages_length [simp]: "length (drawImages lay cw ch images spc) = length images"
  by (cases lay) (simp_all add: drawImages_def Let_def)



section \<open>Input checks\<close>

text \<open>
  C1.  A call with fewer than two files returns a failure that carries an insufficient-input
  error, so no composite is produced: "No images selected" for no file and "Please select
  at least 2 images to merge" for one file.  A call with two or more files never returns an
  insufficient-input error.
\<close>

theorem mergeImages_insufficient_input:
  "(length imageFiles < 2 \<longrightarrow>
      (\<exists>err. mergeImages e imageFiles opts = Inl err \<and> insufficient_input err \<and>
         err = (if imageFiles = [] then NoImagesSelected else AtLeastTwoImages))) \<and>
   (2 \<le> length imageFiles \<longrightarrow>
      \<not> (\<exists>err. mergeImages e imageFiles opts = Inl err \<and> insufficient_input err))"
proof (intro conjI impI)
  assume "length imageFiles < 2"
  then have "length imageFiles = 0 \<or> length imageFiles = 1" by arith
  then show "\<exists>err. mergeImages e imageFiles opts = Inl err \<and> insufficient_input err \<and>
      err = (if imageFiles = [] then NoImagesSelected else AtLeastTwoImages)"
    by (auto simp add: mergeImages_def insufficient_input_def)
next
  assume "2 \<le> length imageFiles"
  then have n: "length imageFiles \<noteq> 0" "length imageFiles \<noteq> 1" by arith+
  show "\<not> (\<exists>err. mergeImages e imageFiles opts = Inl err \<and> insufficient_input err)"
    using n
    by (auto simp add: mergeImages_def insufficient_input_def Let_def
        split: option.splits prod.splits if_splits)
qed

text \<open>One of the scenario's images alone is refused; the two together are not.\<close>

theorem mergeImages_insufficient_input_witness:
  "mergeImages browser_ok [hd two_images] (merge_options Vertical 10 1200)
     = Inl AtLeastTwoImages \<and>
   \<not> (\<exists>err. mergeImages browser_ok two_images (merge_options Vertical 10 1200) = Inl err \<and>
      insufficient_input err)"
proof -
  have a: "length [hd two_images] < 2" by simp
  have b: "2 \<le> length two_images" by (simp add: two_images_def)
  from mergeImages_insufficient_input
      [of "[hd two_images]" browser_ok "merge_options Vertical 10 1200",
       THEN conjunct1, THEN mp, OF a]
  have "mergeImages browser_ok [hd two_images] (merge_options Vertical 10 1200)
      = Inl AtLeastTwoImages"
    by simp
  moreover
  from mergeImages_insufficient_input
      [of two_images browser_ok "merge_options Vertical 10 1200",
       THEN conjunct2, THEN mp, OF b]
  have "\<not> (\<exists>err. mergeImages browser_ok two_images (merge_options Vertical 10 1200) = Inl err \<and>
      insufficient_input err)" .
  ultimately show ?thesis by (rule conjI)
qed

section \<open>Canvas size\<close>

text \<open>
  C2.  In horizontal layout, for two or more images that load and whose widths sum to at most
  \<open>2^53\<close> (the sum is then exact), a call that gets its drawing context and can encode its
  canvas returns a canvas.  With \<open>scale = min(1, maxWidth / totalWidth)\<close>, where \<open>totalWidth\<close>
  is the sum of the image widths, \<open>canvasWidth = (totalWidth + spacing * (n - 1)) * scale\<close> and
  \<open>canvasHeight = maxHeight * scale\<close>, where \<open>maxHeight\<close> is the largest image height, every
  operation rounded to a double, the numbers stored as the canvas size are the floors of
  \<open>canvasWidth\<close> and \<open>canvasHeight\<close>, and the canvas has exactly the floored size when these
  are in the range of the canvas attribute.
\<close>

theorem horizontal_canvas:
  assumes "2 \<le> length imageFiles"
    and "those (map (loadImageFromFile e) imageFiles) = Some images"
    and "getContext e"
    and "mergeImages e imageFiles opts \<noteq> Inl FailedToCreateBlob"
    and "eff_layout opts = Horizontal"
    and "sum_list (map width images) \<le> 9007199254740992"
  shows "\<exists>c. mergeImages e imageFiles opts = Inr c \<and>
    (let n = num (length images);
         totalW = num (sum_list (map width images));
         maxHeight = num (Max (height ` set images));
         scale = Math_min (Fin 1) (fl_div (eff_maxWidth opts) totalW);
         canvasWidth =
           fl_mul (fl_add totalW (fl_mul (eff_spacing opts) (fl_sub n (Fin 1)))) scale;
         canvasHeight = fl_mul maxHeight scale
     in cv_width c = canvas_attr 300 (Math_floor canvasWidth) \<and>
        cv_height c = canvas_attr 150 (Math_floor canvasHeight) \<and>
        (\<forall>w. canvasWidth = Fin w \<and> 0 \<le> w \<and> w < 2147483648 \<longrightarrow> int (cv_width c) = \<lfloor>w\<rfloor>) \<and>
        (\<forall>h. canvasHeight = Fin h \<and> 0 \<le> h \<and> h < 2147483648 \<longrightarrow> int (cv_height c) = \<lfloor>h\<rfloor>))"
proof -
  have ne: "images \<noteq> []" using those_length [OF assms(2)] assms(1) by auto
  show ?thesis
    unfolding mergeImages_success [OF assms(1-4)] assms(5)
    by (simp add: Let_def canvasDims_def totalWidth_eq [OF assms(6)] maxImgHeight_eq [OF ne]
        canvas_attr_floor_in_range)
qed

text \<open>
  The scenario: 100x200 and 300x100, spacing 10, maximal width 1200 give 410x200.  Two images
  of 696x145 and 696x100 give 1208x124: the scale is the double nearest to \<open>25 / 29\<close>, and
  145 times this scale is rounded to the double just below 125.
\<close>

theorem horizontal_canvas_witness:
  "(\<exists>c. mergeImages browser_ok two_images (merge_options Horizontal 10 1200) = Inr c \<and>
       cv_width c = 410 \<and> cv_height c = 200) \<and>
   (\<exists>c. mergeImages browser_ok near_images_horizontal (merge_options Horizontal 10 1200) = Inr c \<and>
       cv_width c = 1208 \<and> cv_height c = 124)"
proof (rule conjI)
  have l: "2 \<le> length two_images" and s: "sum_list (map width two_images) \<le> 9007199254740992"
    by (simp_all add: two_images_def)
  have b: "mergeImages browser_ok two_images (merge_options Horizontal 10 1200)
      \<noteq> Inl FailedToCreateBlob"
    by (simp add: horizontal_scenario_eval)
  from horizontal_canvas [OF l browser_ok_loads browser_ok_simps(1) b merge_options_simps(1) s]
  show "\<exists>c. mergeImages browser_ok two_images (merge_options Horizontal 10 1200) = Inr c \<and>
       cv_width c = 410 \<and> cv_height c = 200"
    by (auto simp add: Let_def two_images_def fl_ops_Fin canvas_attr_def)
next
  have l: "2 \<le> length near_images_horizontal"
    and s: "sum_list (map width near_images_horizontal) \<le> 9007199254740992"
    by (simp_all add: near_images_horizontal_def)
  have d: "canvasDims (eff_layout (merge_options Horizontal 10 1200)) near_images_horizontal
        (eff_spacing (merge_options Horizontal 10 1200)) (eff_maxWidth (merge_options Horizontal 10 1200))
      = (Fin (5315570007386041 / 2 ^ 42), Fin (8796093022207999 / 2 ^ 46))"
    by (simp add: near_horizontal_dims)
  have b: "mergeImages browser_ok near_images_horizontal (merge_options Horizontal 10 1200)
      \<noteq> Inl FailedToCreateBlob"
    by (rule mergeImages_browser_ok [OF l d]) simp_all
  from horizontal_canvas [OF l browser_ok_loads browser_ok_simps(1) b merge_options_simps(1) s]
    near_horizontal_fl
  show "\<exists>c. mergeImages browser_ok near_images_horizontal (merge_options Horizontal 10 1200) = Inr c \<and>
       cv_width c = 1208 \<and> cv_height c = 124"
    by (auto simp add: Let_def near_images_horizontal_def fl_ops_Fin canvas_attr_def)
qed

text \<open>
  C3.  In vertical layout, for two or more images that load and whose heights sum to at most
  \<open>2^53\<close>, a call that gets its drawing context and can encode its canvas returns a canvas.
  With \<open>scale = min(1, maxWidth / maxImgWidth)\<close>, where \<open>maxImgWidth\<close> is the largest image
  width, \<open>canvasWidth = maxImgWidth * scale\<close> and
  \<open>canvasHeight = (totalHeight + spacing * (n - 1)) * scale\<close>, where \<open>totalHeight\<close> is the sum
  of the image heights, every operation rounded to a double, the numbers stored as the canvas
  size are the floors of \<open>canvasWidth\<close> and \<open>canvasHeight\<close>, and the canvas has exactly the
  floored size when these are in the range of the canvas attribute.
\<close>

theorem vertical_canvas:
  assumes "2 \<le> length imageFiles"
    and "those (map (loadImageFromFile e) imageFiles) = Some images"
    and "getContext e"
    and "mergeImages e imageFiles opts \<noteq> Inl FailedToCreateBlob"
    and "eff_layout opts = Vertical"
    and "sum_list (map height images) \<le> 9007199254740992"
  shows "\<exists>c. mergeImages e imageFiles opts = Inr c \<and>
    (let n = num (length images);
         maxImgW = num (Max (width ` set images));
         totalH = num (sum_list (map height images));
         scale = Math_min (Fin 1) (fl_div (eff_maxWidth opts) maxImgW);
         canvasWidth = fl_mul maxImgW scale;
         canvasHeight =
           fl_mul (fl_add totalH (fl_mul (eff_spacing opts) (fl_sub n (Fin 1)))) scale
     in cv_width c = canvas_attr 300 (Math_floor canvasWidth) \<and>
        cv_height c = canvas_attr 150 (Math_floor canvasHeight) \<and>
        (\<forall>w. canvasWidth = Fin w \<and> 0 \<le> w \<and> w < 2147483648 \<longrightarrow> int (cv_width c) = \<lfloor>w\<rfloor>) \<and>
        (\<forall>h. canvasHeight = Fin h \<and> 0 \<le> h \<and> h < 2147483648 \<longrightarrow> int (cv_height c) = \<lfloor>h\<rfloor>))"
proof -
  have ne: "images \<noteq> []" using those_length [OF assms(2)] assms(1) by auto
  show ?thesis
    unfolding mergeImages_success [OF assms(1-4)] assms(5)
    by (simp add: Let_def canvasDims_def totalHeight_eq [OF assms(6)] maxImgWidth_eq [OF ne]
        canvas_attr_floor_in_range)
qed

text \<open>
  The scenario: 100x200 and 300x100, spacing 10, maximal width 1200 give 300x310.  Two images
  of 2191x10 and 100x10 give 1199x16: the scale is the double nearest to \<open>1200 / 2191\<close>, and
  2191 times this scale is rounded to the double just below 1200.
\<close>

theorem vertical_canvas_witness:
  "(\<exists>c. mergeImages browser_ok two_images (merge_options Vertical 10 1200) = Inr c \<and>
       cv_width c = 300 \<and> cv_height c = 310) \<and>
   (\<exists>c. mergeImages browser_ok near_images_vertical (merge_options Vertical 10 1200) = Inr c \<and>
       cv_width c = 1199 \<and> cv_height c = 16)"
proof (rule conjI)
  have l: "2 \<le> length two_images" and s: "sum_list (map height two_images) \<le> 9007199254740992"
    by (simp_all add: two_images_def)
  have b: "mergeImages browser_ok two_images (merge_options Vertical 10 1200)
      \<noteq> Inl FailedToCreateBlob"
    by (simp add: vertical_scenario_eval)
  from vertical_canvas [OF l browser_ok_loads browser_ok_simps(1) b merge_options_simps(1) s]
  show "\<exists>c. mergeImages browser_ok two_images (merge_options Vertical 10 1200) = Inr c \<and>
       cv_width c = 300 \<and> cv_height c = 310"
    by (auto simp add: Let_def two_images_def fl_ops_Fin canvas_attr_def)
next
  have l: "2 \<le> length near_images_vertical"
    and s: "sum_list (map height near_images_vertical) \<le> 9007199254740992"
    by (simp_all add: near_images_vertical_def)
  have d: "canvasDims (eff_layout (merge_options Vertical 10 1200)) near_images_vertical
        (eff_spacing (merge_options Vertical 10 1200)) (eff_maxWidth (merge_options Vertical 10 1200))
      = (Fin (5277655813324799 / 2 ^ 42), Fin (4624874103872029 / 2 ^ 48))"
    by (simp add: near_vertical_dims)
  have b: "mergeImages browser_ok near_images_vertical (merge_options Vertical 10 1200)
      \<noteq> Inl FailedToCreateBlob"
    by (rule mergeImages_browser_ok [OF l d]) simp_all
  from vertical_canvas [OF l browser_ok_loads browser_ok_simps(1) b merge_options_simps(1) s]
    near_vertical_fl
  show "\<exists>c. mergeImages browser_ok near_images_vertical (merge_options Vertical 10 1200) = Inr c \<and>
       cv_width c = 1199 \<and> cv_height c = 16"
    by (auto simp add: Let_def near_images_vertical_def fl_ops_Fin canvas_attr_def)
qed

section \<open>Grid layout\<close>

text \<open>
  C4.  In grid layout, for two or more images that load, a call that gets its drawing context
  and can encode its canvas returns a canvas made with \<open>cols = ceil(sqrt(n))\<close> columns and
  \<open>rows = ceil(n / cols)\<close> rows: the canvas is as wide as \<open>cols\<close> cells and \<open>cols - 1\<close> gaps, as
  high as \<open>rows\<close> cells and \<open>rows - 1\<close> gaps (both times the canvas scale, every operation
  rounded to a double, floored), every image is drawn, and image \<open>i\<close> is drawn in column
  \<open>i mod cols\<close> and row \<open>i div cols\<close>, that is at \<open>x = col * (maxImgWidth * scale + spacing)\<close>
  and \<open>y = row * (maxImgHeight * scale + spacing)\<close>.  Four images give 2 columns and 2 rows,
  five images 3 columns and 2 rows, two images 2 columns and 1 row.
\<close>

theorem grid_layout:
  "(2 \<le> length imageFiles \<and> those (map (loadImageFromFile e) imageFiles) = Some images \<and>
    getContext e \<and> mergeImages e imageFiles opts \<noteq> Inl FailedToCreateBlob \<and>
    eff_layout opts = Grid \<longrightarrow>
    (\<exists>c cols rows.
       mergeImages e imageFiles opts = Inr c \<and>
       int cols = \<lceil>sqrt (real (length images))\<rceil> \<and>
       int rows = \<lceil>real (length images) / real cols\<rceil> \<and>
       (let spc = eff_spacing opts;
            cscale = Math_min (Fin 1)
              (fl_div (eff_maxWidth opts) (fl_mul (maxImgWidth images) (Fin (real cols))));
            rowW = fl_add (fl_mul (maxImgWidth images) (Fin (real cols)))
              (fl_mul spc (fl_sub (Fin (real cols)) (Fin 1)));
            colH = fl_add (fl_mul (maxImgHeight images) (Fin (real rows)))
              (fl_mul spc (fl_sub (Fin (real rows)) (Fin 1)));
            scale = js_div (Fin (real (cv_width c)))
              (js_add (js_mul (maxImgWidth images) (Fin (real cols)))
                 (js_mul spc (Fin (real cols - 1))))
        in cv_width c = canvas_attr 300 (Math_floor (fl_mul rowW cscale)) \<and>
           cv_height c = canvas_attr 150 (Math_floor (fl_mul colH cscale)) \<and>
           length (drawn c) = length images \<and>
           (\<forall>i<length images.
              img (drawn c ! i) = images ! i \<and>
              pos_x (drawn c ! i) =
                js_mul (Fin (real (i mod cols))) (js_add (js_mul (maxImgWidth images) scale) spc) \<and>
              pos_y (drawn c ! i) =
                js_mul (Fin (real (i div cols)))
                  (js_add (js_mul (maxImgHeight images) scale) spc))))) \<and>
   grid_cols 4 = 2 \<and> grid_rows 4 = Fin 2 \<and>
   grid_cols 5 = 3 \<and> grid_rows 5 = Fin 2 \<and>
   grid_cols 2 = 2 \<and> grid_rows 2 = Fin 1"
proof (intro conjI impI)
  assume a: "2 \<le> length imageFiles \<and> those (map (loadImageFromFile e) imageFiles) = Some images \<and>
    getContext e \<and> mergeImages e imageFiles opts \<noteq> Inl FailedToCreateBlob \<and>
    eff_layout opts = Grid"
  then have len: "length images = length imageFiles" by (auto dest: those_length)
  then have ne: "images \<noteq> []" and pos: "0 < length images" using a by auto
  have cols: "0 < grid_cols (length images)" using pos by (rule grid_cols_pos)
  have "0 \<le> sqrt (real (length images))" by simp
  then have "- 1 < sqrt (real (length images))" by linarith
  then have ic: "int (grid_cols (length images)) = \<lceil>sqrt (real (length images))\<rceil>"
    by (simp add: grid_cols_def)
  have "0 \<le> real (length images) / real (grid_cols (length images))" by simp
  then have "- 1 < real (length images) / real (grid_cols (length images))" by linarith
  then have "0 \<le> \<lceil>real (length images) / real (grid_cols (length images))\<rceil>"
    by (simp add: zero_le_ceiling)
  then obtain rows where rows:
      "int rows = \<lceil>real (length images) / real (grid_cols (length images))\<rceil>"
    using nonneg_int_cases by metis
  have rr: "real_of_int \<lceil>real (length images) / real (grid_cols (length images))\<rceil> = real rows"
    using rows by (metis of_int_of_nat_eq)
  have res: "mergeImages e imageFiles opts = Inr
     \<lparr>cv_width = canvas_attr 300 (Math_floor (fst (canvasDims Grid images
              (eff_spacing opts) (eff_maxWidth opts)))),
          cv_height = canvas_attr 150 (Math_floor (snd (canvasDims Grid images
              (eff_spacing opts) (eff_maxWidth opts)))),
          fillStyle = eff_backgroundColor opts,
          drawn = drawImages Grid
            (canvas_attr 300 (Math_floor (fst (canvasDims Grid images
              (eff_spacing opts) (eff_maxWidth opts)))))
            (canvas_attr 150 (Math_floor (snd (canvasDims Grid images
              (eff_spacing opts) (eff_maxWidth opts)))))
            images (eff_spacing opts)\<rparr>"
    using mergeImages_success [of imageFiles e images opts] a by simp
  show "\<exists>c cols rows.
       mergeImages e imageFiles opts = Inr c \<and>
       int cols = \<lceil>sqrt (real (length images))\<rceil> \<and>
       int rows = \<lceil>real (length images) / real cols\<rceil> \<and>
       (let spc = eff_spacing opts;
            cscale = Math_min (Fin 1)
              (fl_div (eff_maxWidth opts) (fl_mul (maxImgWidth images) (Fin (real cols))));
            rowW = fl_add (fl_mul (maxImgWidth images) (Fin (real cols)))
              (fl_mul spc (fl_sub (Fin (real cols)) (Fin 1)));
            colH = fl_add (fl_mul (maxImgHeight images) (Fin (real rows)))
              (fl_mul spc (fl_sub (Fin (real rows)) (Fin 1)));
            scale = js_div (Fin (real (cv_width c)))
              (js_add (js_mul (maxImgWidth images) (Fin (real cols)))
                 (js_mul spc (Fin (real cols - 1))))
        in cv_width c = canvas_attr 300 (Math_floor (fl_mul rowW cscale)) \<and>
           cv_height c = canvas_attr 150 (Math_floor (fl_mul colH cscale)) \<and>
           length (drawn c) = length images \<and>
           (\<forall>i<length images.
              img (drawn c ! i) = images ! i \<and>
              pos_x (drawn c ! i) =
                js_mul (Fin (real (i mod cols))) (js_add (js_mul (maxImgWidth images) scale) spc) \<and>
              pos_y (drawn c ! i) =
                js_mul (Fin (real (i div cols)))
                  (js_add (js_mul (maxImgHeight images) scale) spc)))"
    unfolding res
    apply (rule exI, rule exI [of _ "grid_cols (length images)"], rule exI [of _ rows])
    apply (intro conjI)
       apply (rule refl)
      apply (rule ic)
     apply (rule rows)
    apply (simp add: Let_def canvasDims_grid [OF ne] drawImages_grid [OF ne] rr js_sub_def
        draw_grid_nth [OF cols])
    done
next
  show "grid_cols 4 = 2" by (rule grid_cols_4)
  show "grid_rows 4 = Fin 2" by (simp add: grid_rows_def grid_cols_4)
  show "grid_cols 5 = 3" by (rule grid_cols_5)
  show "grid_rows 5 = Fin 2" by (simp add: grid_rows_def grid_cols_5)
  show "grid_cols 2 = 2" by (rule grid_cols_2)
  show "grid_rows 2 = Fin 1" by (simp add: grid_rows_def grid_cols_2)
qed

text \<open>The scenario's two images: the hypotheses hold and the second image is drawn second.\<close>

theorem grid_layout_witness:
  "\<exists>c cols rows.
     mergeImages browser_ok two_images (merge_options Grid 10 1200) = Inr c \<and>
     int cols = \<lceil>sqrt 2\<rceil> \<and> int rows = \<lceil>2 / real cols\<rceil> \<and>
     length (drawn c) = 2 \<and> img (drawn c ! 1) = \<lparr>width = 300, height = 100\<rparr>"
proof -
  have hyp: "2 \<le> length two_images \<and>
      those (map (loadImageFromFile browser_ok) two_images) = Some two_images \<and>
      getContext browser_ok \<and>
      mergeImages browser_ok two_images (merge_options Grid 10 1200) \<noteq> Inl FailedToCreateBlob \<and>
      eff_layout (merge_options Grid 10 1200) = Grid"
    by (simp add: browser_ok_loads grid_scenario_eval) (simp add: two_images_def)
  have l: "length two_images = 2" and i: "two_images ! 1 = \<lparr>width = 300, height = 100\<rparr>"
    by (simp_all add: two_images_def)
  from grid_layout [of two_images browser_ok two_images "merge_options Grid 10 1200"] hyp
  obtain c cols rows where
    "mergeImages browser_ok two_images (merge_options Grid 10 1200) = Inr c"
    "int cols = \<lceil>sqrt (real (length two_images))\<rceil>"
    "int rows = \<lceil>real (length two_images) / real cols\<rceil>"
    "length (drawn c) = length two_images"
    "\<forall>i<length two_images. img (drawn c ! i) = two_images ! i"
    unfolding Let_def by blast
  then show ?thesis unfolding l i [symmetric] by (intro exI [of _ c] exI [of _ cols] exI [of _ rows]) simp
qed

section \<open>Bounds of the canvas\<close>

text \<open>
  C5, as the code has it.  For two or more images that load, in every layout and for finite
  positive spacing \<open>s\<close> and maximal width \<open>m\<close>, a call that gets its drawing context and can
  encode its canvas returns a canvas whose width and height are both strictly greater than
  0, and whose width is at most \<open>m + s * (k - 1)\<close> within rounding tolerance (a relative
  \<open>2^-40\<close>), where \<open>k\<close> is the number of images side by side: \<open>n\<close> in horizontal layout, 1 in
  vertical layout, \<open>cols\<close> in grid layout.  The widths of the images are \<open>unsigned long\<close>
  values, as the DOM has them.
\<close>

theorem canvas_bounds:
  assumes "2 \<le> length imageFiles"
    and "those (map (loadImageFromFile e) imageFiles) = Some images"
    and "getContext e"
    and "mergeImages e imageFiles opts \<noteq> Inl FailedToCreateBlob"
    and "eff_spacing opts = Fin s" and "0 < s"
    and "eff_maxWidth opts = Fin m" and "0 < m"
    and "\<forall>i\<in>set images. unsigned_long (width i)"
  shows "\<exists>c. mergeImages e imageFiles opts = Inr c \<and>
     0 < cv_width c \<and> 0 < cv_height c \<and>
     real (cv_width c) \<le>
       (m + s * (real (case eff_layout opts of
                         Horizontal \<Rightarrow> length images
                       | Vertical \<Rightarrow> 1
                       | Grid \<Rightarrow> grid_cols (length images)) - 1)) * (1 + 1 / 2 ^ 40)"
proof -
  define k where "k = (case eff_layout opts of
                         Horizontal \<Rightarrow> length images
                       | Vertical \<Rightarrow> 1
                       | Grid \<Rightarrow> grid_cols (length images))"
  define c where "c =
     \<lparr>cv_width = canvas_attr 300 (Math_floor (fst (canvasDims (eff_layout opts) images
              (eff_spacing opts) (eff_maxWidth opts)))),
          cv_height = canvas_attr 150 (Math_floor (snd (canvasDims (eff_layout opts) images
              (eff_spacing opts) (eff_maxWidth opts)))),
          fillStyle = eff_backgroundColor opts,
          drawn = drawImages (eff_layout opts)
            (canvas_attr 300 (Math_floor (fst (canvasDims (eff_layout opts) images
              (eff_spacing opts) (eff_maxWidth opts)))))
            (canvas_attr 150 (Math_floor (snd (canvasDims (eff_layout opts) images
              (eff_spacing opts) (eff_maxWidth opts)))))
            images (eff_spacing opts)\<rparr>"
  have ne: "images \<noteq> []" using those_length [OF assms(2)] assms(1) by auto
  have res: "mergeImages e imageFiles opts = Inr c"
    unfolding c_def by (rule mergeImages_success [OF assms(1-4)])
  have pos: "0 < cv_width c" "0 < cv_height c"
    using mergeImages_Inr_pos [OF res] by blast+
  have cw: "cv_width c = canvas_attr 300 (Math_floor (fst (canvasDims (eff_layout opts) images
              (Fin s) (Fin m))))"
    by (simp add: c_def assms(5,7))
  then have "canvas_attr 300 (Math_floor (fst (canvasDims (eff_layout opts) images
              (Fin s) (Fin m)))) \<noteq> 0"
    using pos(1) by simp
  from canvas_attr_Fin [OF this] obtain w where
    w: "fst (canvasDims (eff_layout opts) images (Fin s) (Fin m)) = Fin w" by blast
  then obtain h where d: "canvasDims (eff_layout opts) images (Fin s) (Fin m) = (Fin w, h)"
    by (cases "canvasDims (eff_layout opts) images (Fin s) (Fin m)") simp
  have b: "0 \<le> w \<and> (1 \<le> w \<longrightarrow> w \<le> (m + s * (real k - 1)) * (1 + 1 / 2 ^ 40))"
  proof (cases "eff_layout opts")
    case Horizontal
    then show ?thesis
      using dims_horizontal_le [OF _ ne assms(6,8), of w h] d by (simp add: k_def)
  next
    case Vertical
    then show ?thesis
      using dims_vertical_le [OF _ ne assms(8,9), of s w h] d by (simp add: k_def)
  next
    case Grid
    then show ?thesis
      using dims_grid_le [OF _ ne assms(6,8), of w h] d by (simp add: k_def)
  qed
  then have w0: "0 \<le> w" by blast
  have le: "real (cv_width c) \<le> w"
    unfolding cw w by (rule canvas_attr_floor_le [OF w0]) simp
  have "1 \<le> real (cv_width c)" using pos(1) by simp
  then have "1 \<le> w" using le by linarith
  then have "w \<le> (m + s * (real k - 1)) * (1 + 1 / 2 ^ 40)" using b by blast
  then have "real (cv_width c) \<le> (m + s * (real k - 1)) * (1 + 1 / 2 ^ 40)"
    using le by linarith
  then show ?thesis using res pos unfolding k_def by blast
qed

text \<open>
  Two images of 1200x100 in horizontal layout, spacing 100, maximal width 1200: the canvas has
  pixels and its width is within the bound 1300.
\<close>

theorem canvas_bounds_witness:
  "\<exists>c. mergeImages browser_ok wide_images (merge_options Horizontal 100 1200) = Inr c \<and>
     0 < cv_width c \<and> 0 < cv_height c \<and> real (cv_width c) \<le> 1300 * (1 + 1 / 2 ^ 40)"
proof -
  have l: "2 \<le> length wide_images"
    and u: "\<forall>i\<in>set wide_images. unsigned_long (width i)"
    by (simp_all add: wide_images_def unsigned_long_def)
  have b: "mergeImages browser_ok wide_images (merge_options Horizontal 100 1200)
      \<noteq> Inl FailedToCreateBlob"
    by (simp add: wide_scenario_eval)
  have s: "eff_spacing (merge_options Horizontal 100 1200) = Fin 100"
    and m: "eff_maxWidth (merge_options Horizontal 100 1200) = Fin 1200"
    by simp_all
  from canvas_bounds [OF l browser_ok_loads browser_ok_simps(1) b s _ m _ u]
  show ?thesis by (simp add: wide_images_def)
qed

text \<open>
  C5 as stated fails: two images of 1200x100 in horizontal layout with spacing 100 and
  maximal width 1200 give a canvas that is 1250 wide, which no rounding tolerance covers.
\<close>

theorem canvas_bounds_counterexample:
  "mergeImages browser_ok wide_images (merge_options Horizontal 100 1200) = Inr wide_scenario \<and>
   \<not> cv_width wide_scenario \<le> 1200 \<and>
   \<not> real (cv_width wide_scenario) \<le> 1200 * (1 + 1 / 2 ^ 40)"
  by (simp add: wide_scenario_eval) (simp add: wide_scenario_def)

section \<open>Scale of the grid\<close>

text \<open>
  C6, as the code has it.  In grid layout, for two or more images that load, a finite spacing
  \<open>s\<close>, a largest image width that is not zero and a row width
  \<open>maxImgWidth * cols + s * (cols - 1)\<close> that is not zero, a call that gets its drawing context
  and can encode its canvas draws every image at the scale
  \<open>canvas.width / (maxImgWidth * cols + s * (cols - 1))\<close>, where the number stored as
  \<open>canvas.width\<close> is the floor of the row width times \<open>min(1, maxWidth / (maxImgWidth * cols))\<close>,
  every operation rounded to a double, and not the maximal width.
\<close>

theorem grid_scale:
  assumes "2 \<le> length imageFiles"
    and "those (map (loadImageFromFile e) imageFiles) = Some images"
    and "getContext e"
    and "mergeImages e imageFiles opts \<noteq> Inl FailedToCreateBlob"
    and "eff_layout opts = Grid"
    and "eff_spacing opts = Fin s"
    and "0 < Max (width ` set images)"
    and "real (Max (width ` set images)) * real (grid_cols (length images))
           + s * (real (grid_cols (length images)) - 1) \<noteq> 0"
  shows "\<exists>c. mergeImages e imageFiles opts = Inr c \<and>
    (let cols = real (grid_cols (length images));
         maxImgW = real (Max (width ` set images));
         cells = fl_mul (Fin maxImgW) (Fin cols);
         canvasWidth =
           fl_mul (fl_add cells (fl_mul (Fin s) (fl_sub (Fin cols) (Fin 1))))
             (Math_min (Fin 1) (fl_div (eff_maxWidth opts) cells));
         scale = real (cv_width c) / (maxImgW * cols + s * (cols - 1))
     in cv_width c = canvas_attr 300 (Math_floor canvasWidth) \<and>
        (\<forall>i<length images.
           scaledWidth (drawn c ! i) = Fin (real (width (images ! i)) * scale) \<and>
           scaledHeight (drawn c ! i) = Fin (real (height (images ! i)) * scale)))"
proof -
  have ne: "images \<noteq> []" and pos: "0 < length images"
    using those_length [OF assms(2)] assms(1) by auto
  have cols: "0 < grid_cols (length images)" using pos by (rule grid_cols_pos)
  show ?thesis
    unfolding mergeImages_success [OF assms(1-4)] assms(5,6)
      canvasDims_grid [OF ne]
      drawImages_grid [OF ne]
      grid_scale_Fin [OF maxImgWidth_eq [OF ne] assms(8)]
    by (simp add: Let_def draw_grid_nth [OF cols] maxImgWidth_eq [OF ne])
qed

text \<open>
  The scenario's two images give a canvas 610 wide and the scale 1.  Two images of 1760x100
  and 100x100 with spacing 22 and maximal width 1920 give a canvas 1931 wide, the row width
  3542 times the double nearest to \<open>6 / 11\<close> being rounded to the double just below 1932, and
  the scale \<open>1931 / 3542\<close>.
\<close>

theorem grid_scale_witness:
  "(\<exists>c. mergeImages browser_ok two_images (merge_options Grid 10 1200) = Inr c \<and>
     cv_width c = 610 \<and> scaledWidth (drawn c ! 1) = Fin 300 \<and>
     scaledHeight (drawn c ! 1) = Fin 100) \<and>
   (\<exists>c. mergeImages browser_ok near_images_grid (merge_options Grid 22 1920) = Inr c \<and>
     cv_width c = 1931 \<and> scaledWidth (drawn c ! 0) = Fin (1760 * (1931 / 3542)))"
proof (rule conjI)
  have l: "2 \<le> length two_images" and w: "0 < Max (width ` set two_images)"
    by (simp_all add: two_images_def)
  have d: "real (Max (width ` set two_images)) * real (grid_cols (length two_images))
           + 10 * (real (grid_cols (length two_images)) - 1) \<noteq> 0"
    by (simp add: two_images_def grid_cols_Suc_Suc_0)
  have b: "mergeImages browser_ok two_images (merge_options Grid 10 1200)
      \<noteq> Inl FailedToCreateBlob"
    by (simp add: grid_scenario_eval)
  have s: "eff_spacing (merge_options Grid 10 1200) = Fin 10" by simp
  from grid_scale [OF l browser_ok_loads browser_ok_simps(1) b merge_options_simps(1) s w d]
  show "\<exists>c. mergeImages browser_ok two_images (merge_options Grid 10 1200) = Inr c \<and>
     cv_width c = 610 \<and> scaledWidth (drawn c ! 1) = Fin 300 \<and>
     scaledHeight (drawn c ! 1) = Fin 100"
    by (auto simp add: Let_def two_images_def grid_cols_Suc_Suc_0 canvas_attr_def fl_ops_Fin)
next
  have l: "2 \<le> length near_images_grid" and w: "0 < Max (width ` set near_images_grid)"
    by (simp_all add: near_images_grid_def)
  have d: "real (Max (width ` set near_images_grid)) * real (grid_cols (length near_images_grid))
           + 22 * (real (grid_cols (length near_images_grid)) - 1) \<noteq> 0"
    by (simp add: near_images_grid_def grid_cols_Suc_Suc_0)
  have dims: "canvasDims (eff_layout (merge_options Grid 22 1920)) near_images_grid
        (eff_spacing (merge_options Grid 22 1920)) (eff_maxWidth (merge_options Grid 22 1920))
      = (Fin (8497025859452927 / 2 ^ 42), Fin (7676590273926981 / 2 ^ 47))"
    by (simp add: near_grid_dims)
  have b: "mergeImages browser_ok near_images_grid (merge_options Grid 22 1920)
      \<noteq> Inl FailedToCreateBlob"
    by (rule mergeImages_browser_ok [OF l dims]) simp_all
  have s: "eff_spacing (merge_options Grid 22 1920) = Fin 22" by simp
  from grid_scale [OF l browser_ok_loads browser_ok_simps(1) b merge_options_simps(1) s w d]
    near_grid_fl
  show "\<exists>c. mergeImages browser_ok near_images_grid (merge_options Grid 22 1920) = Inr c \<and>
     cv_width c = 1931 \<and> scaledWidth (drawn c ! 0) = Fin (1760 * (1931 / 3542))"
    by (auto simp add: Let_def near_images_grid_def grid_cols_Suc_Suc_0 canvas_attr_def fl_ops_Fin)
qed

text \<open>
  C6 as stated fails: with the scenario's two images, spacing 10 and maximal width 1200 the
  canvas is 610 wide, not 1200, and the first image is drawn 100 wide, at scale 1 and not
  at scale \<open>1200 / 610\<close>.
\<close>

theorem grid_canvas_width_counterexample:
  "mergeImages browser_ok two_images (merge_options Grid 10 1200) = Inr grid_scenario \<and>
   cv_width grid_scenario \<noteq> 1200 \<and>
   scaledWidth (hd (drawn grid_scenario)) \<noteq> Fin (100 * (1200 / (300 * 2 + 10 * (2 - 1))))"
  by (simp add: grid_scenario_eval) (simp add: grid_scenario_def)

section \<open>Horizontal placement\<close>

text \<open>
  C7.  In horizontal layout, for two or more images that load, a finite spacing \<open>s\<close> and a
  largest image height that is not zero, a call that gets its drawing context and can encode
  its canvas draws every image, in input order, at the scale \<open>canvas.height / maxHeight\<close> taken from the stored canvas height: image
  \<open>i\<close> has the size \<open>width * scale\<close> by \<open>height * scale\<close>, the vertical offset
  \<open>(canvas.height - height * scale) / 2\<close>, and the horizontal position that is the sum of
  \<open>width * scale + s\<close> over the images before it.
\<close>

theorem horizontal_placement:
  assumes "2 \<le> length imageFiles"
    and "those (map (loadImageFromFile e) imageFiles) = Some images"
    and "getContext e"
    and "mergeImages e imageFiles opts \<noteq> Inl FailedToCreateBlob"
    and "eff_layout opts = Horizontal"
    and "eff_spacing opts = Fin s"
    and "0 < Max (height ` set images)"
  shows "\<exists>c. mergeImages e imageFiles opts = Inr c \<and> length (drawn c) = length images \<and>
    (let maxHeight = real (Max (height ` set images));
         scale = real (cv_height c) / maxHeight
     in \<forall>i<length images.
          drawn c ! i =
            \<lparr>img = images ! i,
             pos_x = Fin (\<Sum>j<i. (real (width (images ! j)) * scale + s)),
             pos_y = Fin ((real (cv_height c) - real (height (images ! i)) * scale) / 2),
             scaledWidth = Fin (real (width (images ! i)) * scale),
             scaledHeight = Fin (real (height (images ! i)) * scale)\<rparr>)"
proof -
  have ne: "images \<noteq> []" using those_length [OF assms(2)] assms(1) by auto
  show ?thesis
    unfolding mergeImages_success [OF assms(1-4)] assms(5,6)
      drawImages_horizontal [OF maxImgHeight_eq [OF ne] real_pos_neq0 [OF assms(7)]]
    by (simp add: Let_def draw_horizontal_nth)
qed

text \<open>
  The scenario in horizontal layout: the scale is \<open>200 / 200\<close>, the first image is drawn at
  \<open>(0, 0)\<close> and the second at \<open>(110, 50)\<close>.
\<close>

theorem horizontal_placement_witness:
  "\<exists>c. mergeImages browser_ok two_images (merge_options Horizontal 10 1200) = Inr c \<and>
     map pos_x (drawn c) = [Fin 0, Fin 110] \<and> map pos_y (drawn c) = [Fin 0, Fin 50] \<and>
     map scaledWidth (drawn c) = [Fin 100, Fin 300] \<and>
     map scaledHeight (drawn c) = [Fin 200, Fin 100]"
proof -
  have n: "2 \<le> length two_images" and h: "0 < Max (height ` set two_images)"
    by (simp_all add: two_images_def)
  have b: "mergeImages browser_ok two_images (merge_options Horizontal 10 1200)
      \<noteq> Inl FailedToCreateBlob"
    by (simp add: horizontal_scenario_eval)
  have s: "eff_spacing (merge_options Horizontal 10 1200) = Fin 10" by simp
  obtain c where c: "mergeImages browser_ok two_images (merge_options Horizontal 10 1200) = Inr c"
    and l: "length (drawn c) = length two_images"
    and d: "(let maxHeight = real (Max (height ` set two_images));
         scale = real (cv_height c) / maxHeight
     in \<forall>i<length two_images.
          drawn c ! i =
            \<lparr>img = two_images ! i,
             pos_x = Fin (\<Sum>j<i. (real (width (two_images ! j)) * scale + 10)),
             pos_y = Fin ((real (cv_height c) - real (height (two_images ! i)) * scale) / 2),
             scaledWidth = Fin (real (width (two_images ! i)) * scale),
             scaledHeight = Fin (real (height (two_images ! i)) * scale)\<rparr>)"
    using horizontal_placement [OF n browser_ok_loads browser_ok_simps(1) b
        merge_options_simps(1) s h]
    by blast
  have ch: "cv_height c = 200"
    using c by (simp add: horizontal_scenario_eval) (auto simp add: horizontal_scenario_def)
  have d0: "drawn c ! 0 = \<lparr>img = two_images ! 0, pos_x = Fin 0, pos_y = Fin 0, scaledWidth = Fin 100, scaledHeight = Fin 200\<rparr>"
    using d ch by (simp add: Let_def two_images_def)
  have d1: "drawn c ! 1 = \<lparr>img = two_images ! 1, pos_x = Fin 110, pos_y = Fin 50, scaledWidth = Fin 300, scaledHeight = Fin 100\<rparr>"
    using d ch by (simp add: Let_def two_images_def)
  have "drawn c = [drawn c ! 0, drawn c ! 1]"
    using l by (simp add: two_images_def list_eq_iff_nth_eq less_Suc_eq)
  then have "map pos_x (drawn c) = [Fin 0, Fin 110] \<and> map pos_y (drawn c) = [Fin 0, Fin 50] \<and>
     map scaledWidth (drawn c) = [Fin 100, Fin 300] \<and>
     map scaledHeight (drawn c) = [Fin 200, Fin 100]"
    using d0 d1 by (metis (no_types, lifting) list.simps(8,9) placement.select_convs(2-5))
  with c show ?thesis by (intro exI [of _ c]) simp
qed

section \<open>Advances and the canvas\<close>

text \<open>
  C8.  The canvas is sized with the gaps scaled, \<open>(totalWidth + spacing * (n - 1)) * scale\<close>,
  while the drawing loop advances by the scaled width plus the unscaled spacing.  For two
  images of 1200x100 in horizontal layout with spacing 100 and maximal width 1200 the call
  returns a canvas 1250 wide; the advances \<open>scaledWidth + spacing\<close> minus one spacing cover
  \<open>600 + 100 + 600 = 1300\<close>, and the second image is drawn from 700 to 1300, past the right
  edge of the canvas.  All numbers of this run are integers or halves of integers, which
  doubles hold exactly.
\<close>

theorem advance_sum_exceeds_canvas:
  "mergeImages browser_ok wide_images (merge_options Horizontal 100 1200) = Inr wide_scenario \<and>
   advance_sum scaledWidth (Fin 100) (drawn wide_scenario) = Fin 1300 \<and>
   cv_width wide_scenario = 1250 \<and>
   js_add (pos_x (drawn wide_scenario ! 1)) (scaledWidth (drawn wide_scenario ! 1)) = Fin 1300"
  by (simp add: wide_scenario_eval) (simp add: wide_scenario_def advance_sum_def js_sub_def)

section \<open>Disjoint placements\<close>



section \<open>Defaults\<close>

text \<open>
  C10.  A call that passes \<open>spacing: 0\<close> returns what the call without \<open>spacing\<close> returns, and
  a call that passes \<open>maxWidth: 0\<close> what the call without \<open>maxWidth\<close> returns: the spacing
  becomes 10 and the maximal width 1200.  The spacing in effect is never zero.
\<close>

theorem zero_option_is_omitted:
  "mergeImages e imageFiles (opts\<lparr>spacing := Some (Fin 0)\<rparr>)
     = mergeImages e imageFiles (opts\<lparr>spacing := None\<rparr>) \<and>
   mergeImages e imageFiles (opts\<lparr>maxWidth := Some (Fin 0)\<rparr>)
     = mergeImages e imageFiles (opts\<lparr>maxWidth := None\<rparr>) \<and>
   eff_spacing (opts\<lparr>spacing := Some (Fin 0)\<rparr>) = Fin 10 \<and>
   eff_maxWidth (opts\<lparr>maxWidth := Some (Fin 0)\<rparr>) = Fin 1200 \<and>
   eff_spacing opts \<noteq> Fin 0"
  by (simp add: mergeImages_def eff_spacing_def eff_maxWidth_def eff_layout_def
      eff_backgroundColor_def or_default_def truthy_def split: option.splits)

end
